theory Spec2Isabelle
  imports Complex_Main "HOL-Library.AList" "HOL-Library.Sublist"
begin

section \<open>Python values, exceptions and string formatting\<close>

text \<open>
  The two modules embedded here are \<^verbatim>\<open>bentoml/serve.py\<close> (the supervisor side:
  \<^verbatim>\<open>ensure_prometheus_dir\<close>, \<^verbatim>\<open>serve_development\<close>, \<^verbatim>\<open>serve_production\<close>) and
  \<^verbatim>\<open>bentoml_cli/server/http_api_server.py\<close> (the worker side: \<^verbatim>\<open>main\<close>).
  Python exceptions are values of type \<open>exn\<close>; a computation that may raise returns
  \<open>exn + 'a\<close> with \<open>Inl\<close> for the exception. Only the exception classes that the two
  modules and the library calls they make can raise are listed. \<open>AssertionError\<close> carries
  no message: both \<^verbatim>\<open>assert\<close> statements of the source are written without one.
  Assertions are taken to be enabled (the interpreter is not run with \<^verbatim>\<open>-O\<close>).
\<close>

datatype oserror =
    FileNotFoundError
  | FileExistsError
  | NotADirectoryError
  | PermissionError
  | AddressInUse

datatype exn =
    OSError oserror
  | RuntimeError string
  | AssertionError
  | NotImplementedError string
  | ValueError string
  | KeyboardInterrupt
  | ExternalError string

datatype pyval = PNone | PInt int | PStr string

definition digit_char :: "nat \<Rightarrow> char" where
  "digit_char n = ''0123456789'' ! n"

text \<open>\<^verbatim>\<open>str(n)\<close> for a non-negative integer: its decimal digits.\<close>

function str_nat :: "nat \<Rightarrow> string" where
  "str_nat n = (if n < 10 then [digit_char n] else str_nat (n div 10) @ [digit_char (n mod 10)])"
  by pat_completeness auto
termination
  by (relation "measure id") auto

declare str_nat.simps [simp del]

definition str_int :: "int \<Rightarrow> string" where
  "str_int i = (if i < 0 then CHR ''-'' # str_nat (nat (- i)) else str_nat (nat i))"

text \<open>Truthiness of an \<^verbatim>\<open>Optional[str]\<close> and of an \<^verbatim>\<open>Optional[int]\<close> in an \<^verbatim>\<open>if\<close>.\<close>

definition truthy_str :: "string option \<Rightarrow> bool" where
  "truthy_str v = (case v of None \<Rightarrow> False | Some s \<Rightarrow> s \<noteq> [])"

definition truthy_int :: "int option \<Rightarrow> bool" where
  "truthy_int v = (case v of None \<Rightarrow> False | Some i \<Rightarrow> i \<noteq> 0)"

text \<open>
  \<^verbatim>\<open>json.dumps\<close> of a \<^verbatim>\<open>Dict[str, str]\<close> with the default separators. The escaping
  covers the quote and the backslash; keys and values are taken to be printable ASCII.
\<close>

fun json_escape :: "string \<Rightarrow> string" where
  "json_escape [] = []"
| "json_escape (c # cs) =
     (if c = CHR 0x22 \<or> c = CHR 0x5C then CHR 0x5C # c # json_escape cs
      else c # json_escape cs)"

definition json_str :: "string \<Rightarrow> string" where
  "json_str s = CHR 0x22 # json_escape s @ [CHR 0x22]"

fun json_items :: "(string \<times> string) list \<Rightarrow> string" where
  "json_items [] = []"
| "json_items [(k, v)] = json_str k @ '': '' @ json_str v"
| "json_items ((k, v) # kvs) = json_str k @ '': '' @ json_str v @ '', '' @ json_items kvs"

definition json_dumps :: "(string \<times> string) list \<Rightarrow> string" where
  "json_dumps d = ''{'' @ json_items d @ ''}''"

section \<open>Launch parameters\<close>

text \<open>The seven optional TLS parameters shared by the serve functions and the worker.\<close>

record ssl_params =
  ssl_keyfile :: "string option"
  ssl_certfile :: "string option"
  ssl_keyfile_password :: "string option"
  ssl_version :: "int option"
  ssl_cert_reqs :: "int option"
  ssl_ca_certs :: "string option"
  ssl_ciphers :: "string option"

text \<open>
  The parameters of \<^verbatim>\<open>serve_production\<close> and \<^verbatim>\<open>serve_development\<close>.
  \<open>working_dir\<close> is the directory after
  \<^verbatim>\<open>os.path.realpath(os.path.expanduser(working_dir))\<close>.
\<close>

record serve_params = ssl_params +
  bento_identifier :: string
  working_dir :: string
  port :: int
  host :: string
  backlog :: int
  api_workers :: "int option"
  reload :: bool
  bentoml_home :: string

definition SCRIPT_RUNNER :: string where
  "SCRIPT_RUNNER = ''bentoml_cli.server.runner''"

definition SCRIPT_API_SERVER :: string where
  "SCRIPT_API_SERVER = ''bentoml_cli.server.http_api_server''"

definition SCRIPT_DEV_API_SERVER :: string where
  "SCRIPT_DEV_API_SERVER = ''bentoml_cli.server.http_dev_api_server''"

definition MAX_AF_UNIX_PATH_LENGTH :: nat where
  "MAX_AF_UNIX_PATH_LENGTH = 103"

text \<open>
  \<^verbatim>\<open>args.extend([flag, value]) if value is not None else None\<close>:
  the two elements are appended exactly when the value is present.
\<close>

definition extend_if_present :: "string list \<Rightarrow> string \<Rightarrow> string option \<Rightarrow> string list" where
  "extend_if_present args flag v =
     (case v of Some x \<Rightarrow> args @ [flag, x] | None \<Rightarrow> args)"

text \<open>The seven conditional extensions, in the order of the source (both serve functions).\<close>

definition extend_ssl_args :: "string list \<Rightarrow> 'a ssl_params_scheme \<Rightarrow> string list" where
  "extend_ssl_args args c =
     (let a1 = extend_if_present args ''--ssl-keyfile'' (ssl_keyfile c);
          a2 = extend_if_present a1 ''--ssl-certfile'' (ssl_certfile c);
          a3 = extend_if_present a2 ''--ssl-keyfile-password'' (ssl_keyfile_password c);
          a4 = extend_if_present a3 ''--ssl-version'' (map_option str_int (ssl_version c));
          a5 = extend_if_present a4 ''--ssl-cert-reqs'' (map_option str_int (ssl_cert_reqs c));
          a6 = extend_if_present a5 ''--ssl-ca-certs'' (ssl_ca_certs c);
          a7 = extend_if_present a6 ''--ssl-ciphers'' (ssl_ciphers c)
      in a7)"

text \<open>
  The argument vector of the production API-server watcher (\<^verbatim>\<open>serve_production\<close>,
  \<^verbatim>\<open>api_server_watcher_args\<close>), given the runner map and the metrics directory.
\<close>

definition api_server_watcher_args ::
  "serve_params \<Rightarrow> (string \<times> string) list \<Rightarrow> string \<Rightarrow> string list" where
  "api_server_watcher_args c runner_bind_map prometheus_dir =
     extend_ssl_args
       [''-m'', SCRIPT_API_SERVER, bento_identifier c,
        ''--bind'', ''fd://$(circus.sockets._bento_api_server)'',
        ''--runner-map'', json_dumps runner_bind_map,
        ''--working-dir'', working_dir c,
        ''--backlog'', str_int (backlog c),
        ''--worker-id'', ''$(CIRCUS.WID)'',
        ''--prometheus-dir'', prometheus_dir]
       c"

text \<open>The argument vector of the development watcher (\<^verbatim>\<open>serve_development\<close>).\<close>

definition dev_api_server_watcher_args :: "serve_params \<Rightarrow> string \<Rightarrow> string list" where
  "dev_api_server_watcher_args c prometheus_dir =
     extend_ssl_args
       [''-m'', SCRIPT_DEV_API_SERVER, bento_identifier c,
        ''--bind'', ''fd://$(circus.sockets._bento_api_server)'',
        ''--working-dir'', working_dir c,
        ''--prometheus-dir'', prometheus_dir]
       c"

text \<open>
  Reading an argument vector the way the worker's command line is read: after the
  interpreter's \<^verbatim>\<open>-m module\<close> and the positional service identifier, every option
  is a flag followed by its value.
\<close>

fun pairs :: "'a list \<Rightarrow> ('a \<times> 'a) list" where
  "pairs (a # b # xs) = (a, b) # pairs xs"
| "pairs _ = []"

definition options_of :: "string list \<Rightarrow> (string \<times> string) list" where
  "options_of args = pairs (drop 3 args)"

section \<open>The worker: the option set handed to the HTTP server\<close>

text \<open>
  \<^verbatim>\<open>uvicorn_options\<close> of \<^verbatim>\<open>main\<close>: a dictionary, in insertion order. A TLS
  parameter is stored only if it is truthy.
\<close>

definition set_if :: "bool \<Rightarrow> string \<Rightarrow> pyval \<Rightarrow> (string \<times> pyval) list \<Rightarrow> (string \<times> pyval) list" where
  "set_if b k v d = (if b then AList.update k v d else d)"

definition pstr :: "string option \<Rightarrow> pyval" where
  "pstr v = (case v of Some s \<Rightarrow> PStr s | None \<Rightarrow> PNone)"

definition pint :: "int option \<Rightarrow> pyval" where
  "pint v = (case v of Some i \<Rightarrow> PInt i | None \<Rightarrow> PNone)"

definition uvicorn_options :: "int \<Rightarrow> bool \<Rightarrow> 'a ssl_params_scheme \<Rightarrow> (string \<times> pyval) list" where
  "uvicorn_options backlog_arg windows p =
     (let d0 = [(''backlog'', PInt backlog_arg), (''log_config'', PNone), (''workers'', PInt 1)];
          d1 = set_if (truthy_str (ssl_keyfile p)) ''ssl_keyfile'' (pstr (ssl_keyfile p)) d0;
          d2 = set_if (truthy_str (ssl_certfile p)) ''ssl_certfile'' (pstr (ssl_certfile p)) d1;
          d3 = set_if (truthy_str (ssl_keyfile_password p)) ''ssl_keyfile_password''
                 (pstr (ssl_keyfile_password p)) d2;
          d4 = set_if (truthy_int (ssl_version p)) ''ssl_version'' (pint (ssl_version p)) d3;
          d5 = set_if (truthy_int (ssl_cert_reqs p)) ''ssl_cert_reqs'' (pint (ssl_cert_reqs p)) d4;
          d6 = set_if (truthy_str (ssl_ca_certs p)) ''ssl_ca_certs'' (pstr (ssl_ca_certs p)) d5;
          d7 = set_if (truthy_str (ssl_ciphers p)) ''ssl_ciphers'' (pstr (ssl_ciphers p)) d6;
          d8 = set_if windows ''loop'' (PStr ''asyncio'') d7
      in d8)"

text \<open>Counting the TLS parameters that are present (not \<^verbatim>\<open>None\<close>).\<close>

definition present :: "'a option \<Rightarrow> nat" where
  "present v = (case v of None \<Rightarrow> 0 | Some x \<Rightarrow> 1)"

definition ssl_present_count :: "'a ssl_params_scheme \<Rightarrow> nat" where
  "ssl_present_count c =
     present (ssl_keyfile c) + present (ssl_certfile c) + present (ssl_keyfile_password c) +
     present (ssl_version c) + present (ssl_cert_reqs c) + present (ssl_ca_certs c) +
     present (ssl_ciphers c)"

section \<open>The supervisor's data: sockets, watchers, runners\<close>

text \<open>
  \<^verbatim>\<open>circus.sockets.CircusSocket\<close> and \<^verbatim>\<open>circus.watcher.Watcher\<close> are classes of the
  external supervisor library; the records hold the keyword arguments the source passes.
  A socket built with \<open>path\<close> is a local-domain socket, one built with \<open>host\<close> and
  \<open>port\<close> is a TCP socket.
\<close>

record circus_socket =
  sock_name :: string
  sock_host :: "string option"
  sock_port :: "int option"
  sock_path :: "string option"
  sock_backlog :: int

record watcher =
  watcher_name :: string
  cmd :: string
  args :: "string list"
  copy_env :: bool
  stop_children :: bool
  use_sockets :: bool
  watcher_working_dir :: string
  numprocesses :: int
  close_child_stdin :: bool

text \<open>
  The defaults of the \<^verbatim>\<open>Watcher\<close> constructor for the two keyword arguments the
  source leaves out in some calls: one process, and standard input closed in the child.
\<close>

definition Watcher_numprocesses_default :: int where
  "Watcher_numprocesses_default = 1"

definition Watcher_close_child_stdin_default :: bool where
  "Watcher_close_child_stdin_default = True"

text \<open>
  A runner of the loaded service: its name, its \<^verbatim>\<open>scheduled_worker_count\<close> and the
  value of \<^verbatim>\<open>id(runner)\<close>, which names its socket file.
\<close>

record runner =
  runner_name :: string
  scheduled_worker_count :: int
  runner_id :: nat

record service =
  runners :: "runner list"

datatype platform = Posix | Windows | OtherPlatform

text \<open>
  What the serve functions read from the system: \<^verbatim>\<open>psutil.POSIX\<close> and
  \<^verbatim>\<open>psutil.WINDOWS\<close>, \<^verbatim>\<open>sys.executable\<close>, \<^verbatim>\<open>sys.platform\<close>,
  \<^verbatim>\<open>CpuResource.from_system()\<close>, and how the blocking call \<^verbatim>\<open>arbiter.start\<close> ends:
  \<open>None\<close> when it returns (the supervisor stopped, also after a termination signal it
  handled), \<open>Some e\<close> when it raises \<open>e\<close>.
\<close>

record system =
  psutil_platform :: platform
  sys_executable :: string
  sys_platform :: string
  cpu_from_system :: real
  arbiter_start_raises :: "exn option"

section \<open>The environment: file system, ports, log, configuration container\<close>

text \<open>
  A file-system path is the list of the components of an absolute path; \<open>[]\<close> is the
  root. The file system maps the paths that exist to their kind. \<open>denied\<close> lists the
  paths at which the operating system refuses to create or remove an entry (a permission
  or an I/O error). Symbolic links and \<^verbatim>\<open>..\<close> components are not interpreted.
\<close>

datatype node = File | Dir

type_synonym fpath = "string list"

datatype port_event = Reserved nat | Released nat

record world =
  fs :: "(fpath \<times> node) list"
  denied :: "fpath list"
  cwd :: fpath
  tmpdir :: fpath
  tmp_names :: "string list"
  warnings :: "string list"
  prometheus_multiproc_dir :: string
  bound_ports :: "nat list"
  port_prefs :: "nat list"
  port_stack :: "nat list"
  port_log :: "port_event list"
  arbiters_started :: "(watcher list \<times> circus_socket list) list"

subsection \<open>Paths\<close>

fun split_on :: "char \<Rightarrow> string \<Rightarrow> string list" where
  "split_on c [] = [[]]"
| "split_on c (x # xs) =
     (if x = c then [] # split_on c xs
      else (case split_on c xs of [] \<Rightarrow> [[x]] | p # ps \<Rightarrow> (x # p) # ps))"

text \<open>
  \<^verbatim>\<open>pathlib.Path(s)\<close> on a POSIX system: the path is anchored at the root when the
  string starts with a slash, and empty and \<^verbatim>\<open>.\<close> components are dropped.
\<close>

record pure_path =
  anchored :: bool
  parts :: "string list"

definition Path :: "string \<Rightarrow> pure_path" where
  "Path s =
     \<lparr>anchored = (case s of [] \<Rightarrow> False | x # xs \<Rightarrow> x = CHR ''/''),
      parts = filter (\<lambda>p. p \<noteq> [] \<and> p \<noteq> ''.'') (split_on CHR ''/'' s)\<rparr>"

text \<open>\<^verbatim>\<open>path.absolute()\<close>: a relative path is taken from the working directory.\<close>

definition absolute :: "world \<Rightarrow> pure_path \<Rightarrow> fpath" where
  "absolute w p = (if anchored p then parts p else cwd w @ parts p)"

text \<open>\<^verbatim>\<open>str\<close> of an absolute path.\<close>

definition str_path :: "fpath \<Rightarrow> string" where
  "str_path p = (if p = [] then ''/'' else concat (map (\<lambda>c. CHR ''/'' # c) p))"

text \<open>\<^verbatim>\<open>os.path.join(a, b)\<close> (\<^verbatim>\<open>posixpath\<close>).\<close>

definition os_path_join :: "string \<Rightarrow> string \<Rightarrow> string" where
  "os_path_join a b =
     (if b \<noteq> [] \<and> hd b = CHR ''/'' then b
      else if a = [] \<or> last a = CHR ''/'' then a @ b
      else a @ ''/'' @ b)"

subsection \<open>File-system operations\<close>

definition lookup_node :: "world \<Rightarrow> fpath \<Rightarrow> node option" where
  "lookup_node w p = map_of (fs w) p"

definition path_exists :: "world \<Rightarrow> fpath \<Rightarrow> bool" where
  "path_exists w p = (lookup_node w p \<noteq> None)"

definition is_dir :: "world \<Rightarrow> fpath \<Rightarrow> bool" where
  "is_dir w p = (lookup_node w p = Some Dir)"

text \<open>\<^verbatim>\<open>any(path.iterdir())\<close>: some entry lies below the path.\<close>

definition has_entries :: "world \<Rightarrow> fpath \<Rightarrow> bool" where
  "has_entries w p = list_ex (\<lambda>q. strict_prefix p q) (map fst (fs w))"

text \<open>
  \<^verbatim>\<open>os.scandir(p)\<close>: the entries directly in \<open>p\<close>, in the order in which the file
  system lists them.
\<close>

definition scandir :: "(fpath \<times> node) list \<Rightarrow> fpath \<Rightarrow> fpath list" where
  "scandir es p = remdups (filter (\<lambda>q. q \<noteq> [] \<and> butlast q = p) (map fst es))"

lemma length_filter_strictly_less:
  assumes "x \<in> set xs" and "Q x" and "\<not> P x" and "\<And>y. P y \<Longrightarrow> Q y"
  shows "length (filter P xs) < length (filter Q xs)"
proof -
  have "filter P (filter Q xs) = filter P xs"
    using assms(4) by (auto intro: filter_cong)
  moreover have "length (filter P (filter Q xs)) < length (filter Q xs)"
    using assms(1-3) by (intro length_filter_less [of x]) simp_all
  ultimately show ?thesis by simp
qed

lemma scandir_strict_prefix: "q \<in> set (scandir es p) \<Longrightarrow> strict_prefix p q \<and> q \<in> fst ` set es"
proof -
  assume "q \<in> set (scandir es p)"
  then have q: "q \<noteq> []" "butlast q = p" "q \<in> fst ` set es" by (auto simp add: scandir_def)
  from q(1,2) append_butlast_last_id [of q] have "q = p @ [last q]" by metis
  then have "strict_prefix p q" by (metis strict_prefixI' append_Nil2)
  with q(3) show ?thesis by simp
qed

lemma scandir_fewer_below:
  assumes "q \<in> set (scandir es p)"
  shows "length (filter (\<lambda>e. strict_prefix q (fst e)) es)
           < length (filter (\<lambda>e. strict_prefix p (fst e)) es)"
proof -
  from scandir_strict_prefix [OF assms] obtain e where
    e: "e \<in> set es" "fst e = q" and sp: "strict_prefix p q" by auto
  show ?thesis
  proof (rule length_filter_strictly_less [of e])
    show "e \<in> set es" by (rule e(1))
    show "strict_prefix p (fst e)" using e(2) sp by simp
    show "\<not> strict_prefix q (fst e)" using e(2) by simp
    show "strict_prefix p (fst y)" if "strict_prefix q (fst y)" for y
      using sp that by (meson prefix_order.less_trans)
  qed
qed

text \<open>
  \<^verbatim>\<open>shutil.rmtree(p)\<close> with its default error handling lists the directory, removes
  each entry in turn (a directory by a recursive call, any other entry by
  \<^verbatim>\<open>os.unlink\<close>) and at last removes the directory itself with \<^verbatim>\<open>os.rmdir\<close>.
  \<open>removal_order es p\<close> is the sequence of the removals of that traversal: every entry
  below \<open>p\<close> comes before \<open>p\<close>, and the entries below one directory are consecutive.
\<close>

function removal_order :: "(fpath \<times> node) list \<Rightarrow> fpath \<Rightarrow> fpath list" where
  "removal_order es p =
     (if map_of es p = Some Dir
      then concat (map (removal_order es) (scandir es p)) @ [p]
      else [p])"
  by pat_completeness auto
termination
  by (relation "measure (\<lambda>(es, p). length (filter (\<lambda>e. strict_prefix p (fst e)) es))")
    (auto intro: scandir_fewer_below)

declare removal_order.simps [simp del]

text \<open>
  The operating system refuses the removal of the paths in \<open>denied\<close>, and of the root.
\<close>

definition removable :: "world \<Rightarrow> fpath \<Rightarrow> bool" where
  "removable w q = (q \<noteq> [] \<and> q \<notin> set (denied w))"

text \<open>
  \<^verbatim>\<open>shutil.rmtree\<close>: raises when the path is missing or is not a directory. Otherwise
  it removes the entries in their order of removal and raises at the first removal
  that is refused: what was removed before stays removed, the refused entry and
  everything after it in the order stay. When no removal is refused, the directory and
  everything below it are gone.
\<close>

definition rmtree :: "fpath \<Rightarrow> world \<Rightarrow> (exn + unit) \<times> world" where
  "rmtree p w =
     (case lookup_node w p of
        None \<Rightarrow> (Inl (OSError FileNotFoundError), w)
      | Some File \<Rightarrow> (Inl (OSError NotADirectoryError), w)
      | Some Dir \<Rightarrow>
          (let order = removal_order (fs w) p;
               removed = takeWhile (removable w) order;
               w' = w\<lparr>fs := filter (\<lambda>e. fst e \<notin> set removed) (fs w)\<rparr>
           in if removed = order then (Inr (), w')
              else (Inl (OSError PermissionError), w')))"

text \<open>\<^verbatim>\<open>shutil.rmtree(s)\<close> on a path string.\<close>

definition shutil_rmtree :: "string \<Rightarrow> world \<Rightarrow> (exn + unit) \<times> world" where
  "shutil_rmtree s w = rmtree (absolute w (Path s)) w"

text \<open>\<^verbatim>\<open>os.mkdir\<close>: the parent must be an existing directory and the path must be new.\<close>

definition os_mkdir :: "fpath \<Rightarrow> world \<Rightarrow> (exn + unit) \<times> world" where
  "os_mkdir p w =
     (if path_exists w p then (Inl (OSError FileExistsError), w)
      else if p = [] then (Inl (OSError FileNotFoundError), w)
      else (case lookup_node w (butlast p) of
              None \<Rightarrow> (Inl (OSError FileNotFoundError), w)
            | Some File \<Rightarrow> (Inl (OSError NotADirectoryError), w)
            | Some Dir \<Rightarrow>
                if p \<in> set (denied w) then (Inl (OSError PermissionError), w)
                else (Inr (), w\<lparr>fs := fs w @ [(p, Dir)]\<rparr>)))"

text \<open>
  \<^verbatim>\<open>Path.mkdir(parents, exist_ok)\<close> as \<^verbatim>\<open>pathlib\<close> writes it: try
  \<^verbatim>\<open>os.mkdir\<close>; on \<^verbatim>\<open>FileNotFoundError\<close> with \<open>parents\<close> create the parent (with
  \<open>parents\<close> and \<open>exist_ok\<close>) and try once more; on another \<^verbatim>\<open>OSError\<close> raise unless
  \<open>exist_ok\<close> holds and the path is a directory. \<open>mkdir_parents_rev\<close> takes the path
  with its last component first, so that the recursive call is on the parent.
\<close>

definition mkdir_once :: "bool \<Rightarrow> fpath \<Rightarrow> world \<Rightarrow> (exn + unit) \<times> world" where
  "mkdir_once exist_ok p w =
     (case os_mkdir p w of
        (Inr u, w1) \<Rightarrow> (Inr u, w1)
      | (Inl e, w1) \<Rightarrow>
          if e = OSError FileNotFoundError then (Inl e, w1)
          else if exist_ok \<and> is_dir w1 p then (Inr (), w1)
          else (Inl e, w1))"

fun mkdir_parents_rev :: "bool \<Rightarrow> string list \<Rightarrow> world \<Rightarrow> (exn + unit) \<times> world" where
  "mkdir_parents_rev exist_ok [] w = mkdir_once exist_ok [] w"
| "mkdir_parents_rev exist_ok (x # rparent) w =
     (case os_mkdir (rev (x # rparent)) w of
        (Inr u, w1) \<Rightarrow> (Inr u, w1)
      | (Inl e, w1) \<Rightarrow>
          if e = OSError FileNotFoundError then
            (case mkdir_parents_rev True rparent w1 of
               (Inl e', w2) \<Rightarrow> (Inl e', w2)
             | (Inr u, w2) \<Rightarrow> mkdir_once exist_ok (rev (x # rparent)) w2)
          else if exist_ok \<and> is_dir w1 (rev (x # rparent)) then (Inr (), w1)
          else (Inl e, w1))"

definition mkdir :: "bool \<Rightarrow> bool \<Rightarrow> fpath \<Rightarrow> world \<Rightarrow> (exn + unit) \<times> world" where
  "mkdir with_parents exist_ok p w =
     (if with_parents then mkdir_parents_rev exist_ok (rev p) w else mkdir_once exist_ok p w)"

text \<open>
  \<^verbatim>\<open>tempfile.mkdtemp()\<close>: a new directory in the temporary directory, under the
  first candidate name that does not exist yet. It raises when the temporary directory
  is missing or not a directory, when no candidate name is left, or when the creation
  is refused. It returns the absolute path of the new directory as a string.
\<close>

definition mkdtemp :: "world \<Rightarrow> (exn + string) \<times> world" where
  "mkdtemp w =
     (case lookup_node w (tmpdir w) of
        None \<Rightarrow> (Inl (OSError FileNotFoundError), w)
      | Some File \<Rightarrow> (Inl (OSError NotADirectoryError), w)
      | Some Dir \<Rightarrow>
          (case dropWhile (\<lambda>n. path_exists w (tmpdir w @ [n])) (tmp_names w) of
             [] \<Rightarrow> (Inl (OSError FileExistsError), w)
           | n # rest \<Rightarrow>
               if tmpdir w @ [n] \<in> set (denied w) then (Inl (OSError PermissionError), w)
               else (Inr (str_path (tmpdir w @ [n])),
                     w\<lparr>fs := fs w @ [(tmpdir w @ [n], Dir)], tmp_names := rest\<rparr>)))"

section \<open>Metrics directory resolution\<close>

fun join_with :: "string \<Rightarrow> string list \<Rightarrow> string" where
  "join_with sep [] = []"
| "join_with sep [x] = x"
| "join_with sep (x # xs) = x @ sep @ join_with sep xs"

text \<open>\<^verbatim>\<open>str(path)\<close> of a path that may be relative.\<close>

definition str_pure_path :: "pure_path \<Rightarrow> string" where
  "str_pure_path p =
     (if anchored p then str_path (parts p)
      else if parts p = [] then ''.'' else join_with ''/'' (parts p))"

text \<open>
  The body of the \<^verbatim>\<open>try\<close> statement of \<^verbatim>\<open>ensure_prometheus_dir\<close>. The file-system
  calls act on the absolute path that the (possibly relative) path denotes.
\<close>

definition ensure_prometheus_dir_try :: "string \<Rightarrow> bool \<Rightarrow> world \<Rightarrow> (exn + string) \<times> world" where
  "ensure_prometheus_dir_try directory clean w =
     (let path = Path directory; a = absolute w path in
      if path_exists w a then
        if \<not> is_dir w a \<or> has_entries w a then
          if clean then
            (case rmtree a w of
               (Inl e, w1) \<Rightarrow> (Inl e, w1)
             | (Inr u, w1) \<Rightarrow>
                 (case mkdir False False a w1 of
                    (Inl e, w2) \<Rightarrow> (Inl e, w2)
                  | (Inr u', w2) \<Rightarrow> (Inr (str_path (absolute w2 path)), w2)))
          else
            (Inl (RuntimeError (''Prometheus multiproc directory '' @ str_pure_path path
                                 @ '' is not empty'')), w)
        else (Inr (str_path a), w)
      else
        (case mkdir True False a w of
           (Inl e, w1) \<Rightarrow> (Inl e, w1)
         | (Inr u, w1) \<Rightarrow> (Inr (str_path (absolute w1 path)), w1)))"

text \<open>
  The code after the \<^verbatim>\<open>try\<close> statement: the alternative directory, the warning, the
  update of the configuration container.
\<close>

definition use_alternative_dir :: "string \<Rightarrow> world \<Rightarrow> (exn + string) \<times> world" where
  "use_alternative_dir directory w =
     (case mkdtemp w of
        (Inl e, w1) \<Rightarrow> (Inl e, w1)
      | (Inr alternative, w1) \<Rightarrow>
          (Inr alternative,
           w1\<lparr>warnings := warnings w1 @
                  [''Failed to ensure the prometheus multiproc directory '' @ directory
                   @ '', using alternative: '' @ alternative],
               prometheus_multiproc_dir := alternative\<rparr>))"

text \<open>
  \<^verbatim>\<open>ensure_prometheus_dir(directory, clean, use_alternative)\<close>. Every file-system
  error is an \<^verbatim>\<open>OSError\<close> and is handled by the second \<^verbatim>\<open>except\<close> clause (no library
  call of the body raises \<^verbatim>\<open>shutil.Error\<close>); the \<^verbatim>\<open>RuntimeError\<close> of the body is not
  caught.
\<close>

definition is_OSError :: "exn \<Rightarrow> bool" where
  "is_OSError e = (case e of OSError oe \<Rightarrow> True | _ \<Rightarrow> False)"

definition ensure_prometheus_dir ::
  "string \<Rightarrow> bool \<Rightarrow> bool \<Rightarrow> world \<Rightarrow> (exn + string) \<times> world" where
  "ensure_prometheus_dir directory clean use_alternative w =
     (case ensure_prometheus_dir_try directory clean w of
        (Inr r, w1) \<Rightarrow> (Inr r, w1)
      | (Inl e, w1) \<Rightarrow>
          if is_OSError e then
            if \<not> use_alternative
            then (Inl (RuntimeError (''Failed to create the prometheus multiproc directory ''
                                      @ directory)), w1)
            else use_alternative_dir directory w1
          else (Inl e, w1))"

section \<open>Port reservation\<close>

text \<open>
  Modelled from the spec: \<^verbatim>\<open>reserve_free_port\<close> of \<^verbatim>\<open>bentoml._internal.utils\<close> is not
  among the sources. The spec describes it as a reserve-and-release probe for one free
  loopback TCP port; the source uses it as a context manager. Entering the context binds
  a port that is not bound at that moment (the first such port in the order
  \<open>port_prefs\<close> in which the operating system offers ports) and yields it, or raises when
  no port is free; leaving the context releases the port.
\<close>

definition reserve_free_port :: "world \<Rightarrow> (exn + nat) \<times> world" where
  "reserve_free_port w =
     (case find (\<lambda>p. p \<notin> set (bound_ports w)) (port_prefs w) of
        None \<Rightarrow> (Inl (OSError AddressInUse), w)
      | Some p \<Rightarrow>
          (Inr p, w\<lparr>bound_ports := p # bound_ports w, port_log := port_log w @ [Reserved p]\<rparr>))"

definition release_port :: "nat \<Rightarrow> world \<Rightarrow> world" where
  "release_port p w =
     w\<lparr>bound_ports := remove1 p (bound_ports w), port_log := port_log w @ [Released p]\<rparr>"

text \<open>
  \<^verbatim>\<open>port_stack.enter_context(reserve_free_port())\<close>: the \<^verbatim>\<open>ExitStack\<close> keeps the
  context open; \<open>port_stack\<close> holds the ports of the open contexts, the last one first.
  Leaving the \<^verbatim>\<open>with\<close> statement closes them in that order.
\<close>

definition enter_reserve_free_port :: "world \<Rightarrow> (exn + nat) \<times> world" where
  "enter_reserve_free_port w =
     (case reserve_free_port w of
        (Inl e, w1) \<Rightarrow> (Inl e, w1)
      | (Inr p, w1) \<Rightarrow> (Inr p, w1\<lparr>port_stack := p # port_stack w1\<rparr>))"

definition close_port_stack :: "world \<Rightarrow> world" where
  "close_port_stack w = (fold release_port (port_stack w) w)\<lparr>port_stack := []\<rparr>"

section \<open>Production planning\<close>

text \<open>
  Modelled from the spec: \<^verbatim>\<open>path_to_uri\<close> of \<^verbatim>\<open>bentoml._internal.utils.uri\<close> is not
  among the sources. The spec gives the address of a local-domain socket in the runner
  map as \<^verbatim>\<open>unix://\<close> followed by the path.
\<close>

definition path_to_uri :: "string \<Rightarrow> string" where
  "path_to_uri p = ''unix://'' @ p"

text \<open>The local variables that the runner loops of \<^verbatim>\<open>serve_production\<close> update.\<close>

record loop_state =
  runner_bind_map :: "(string \<times> string) list"
  circus_socket_map :: "(string \<times> circus_socket) list"
  watchers :: "watcher list"

definition posix_runner_watcher :: "system \<Rightarrow> serve_params \<Rightarrow> runner \<Rightarrow> watcher" where
  "posix_runner_watcher sys c r =
     \<lparr>watcher_name = ''runner_'' @ runner_name r,
      cmd = sys_executable sys,
      args = [''-m'', SCRIPT_RUNNER, bento_identifier c,
              ''--runner-name'', runner_name r,
              ''--bind'', ''fd://$(circus.sockets.'' @ runner_name r @ '')'',
              ''--working-dir'', working_dir c,
              ''--worker-id'', ''$(CIRCUS.WID)''],
      copy_env = True,
      stop_children = True,
      use_sockets = True,
      watcher_working_dir = working_dir c,
      numprocesses = scheduled_worker_count r,
      close_child_stdin = Watcher_close_child_stdin_default\<rparr>"

definition windows_runner_watcher :: "system \<Rightarrow> serve_params \<Rightarrow> runner \<Rightarrow> watcher" where
  "windows_runner_watcher sys c r =
     \<lparr>watcher_name = ''runner_'' @ runner_name r,
      cmd = sys_executable sys,
      args = [''-m'', SCRIPT_RUNNER, bento_identifier c,
              ''--runner-name'', runner_name r,
              ''--bind'', ''fd://$(circus.sockets.'' @ runner_name r @ '')'',
              ''--working-dir'', working_dir c,
              ''--no-access-log'',
              ''--worker-id'', ''$(circus.wid)''],
      copy_env = True,
      stop_children = True,
      use_sockets = True,
      watcher_working_dir = working_dir c,
      numprocesses = scheduled_worker_count r,
      close_child_stdin = Watcher_close_child_stdin_default\<rparr>"

text \<open>One iteration of the loop of the POSIX branch; the \<^verbatim>\<open>assert\<close> is its first step.\<close>

definition posix_runner_step ::
  "system \<Rightarrow> serve_params \<Rightarrow> string \<Rightarrow> runner \<Rightarrow> loop_state \<Rightarrow> exn + loop_state" where
  "posix_runner_step sys c uds_path r st =
     (let sockets_path = os_path_join uds_path (str_nat (runner_id r) @ ''.sock'') in
      if \<not> length sockets_path < MAX_AF_UNIX_PATH_LENGTH then Inl AssertionError
      else Inr (st\<lparr>
        runner_bind_map :=
          AList.update (runner_name r) (path_to_uri sockets_path) (runner_bind_map st),
        circus_socket_map :=
          AList.update (runner_name r)
            \<lparr>sock_name = runner_name r, sock_host = None, sock_port = None,
             sock_path = Some sockets_path, sock_backlog = backlog c\<rparr>
            (circus_socket_map st),
        watchers := watchers st @ [posix_runner_watcher sys c r]\<rparr>))"

fun posix_runner_loop ::
  "system \<Rightarrow> serve_params \<Rightarrow> string \<Rightarrow> runner list \<Rightarrow> loop_state \<Rightarrow> exn + loop_state" where
  "posix_runner_loop sys c uds_path [] st = Inr st"
| "posix_runner_loop sys c uds_path (r # rs) st =
     (case posix_runner_step sys c uds_path r st of
        Inl e \<Rightarrow> Inl e
      | Inr st' \<Rightarrow> posix_runner_loop sys c uds_path rs st')"

text \<open>One iteration of the loop of the Windows branch.\<close>

definition windows_runner_step ::
  "system \<Rightarrow> serve_params \<Rightarrow> runner \<Rightarrow> loop_state \<Rightarrow> world \<Rightarrow> (exn + loop_state) \<times> world" where
  "windows_runner_step sys c r st w =
     (case enter_reserve_free_port w of
        (Inl e, w1) \<Rightarrow> (Inl e, w1)
      | (Inr runner_port, w1) \<Rightarrow>
          (Inr (st\<lparr>
             runner_bind_map :=
               AList.update (runner_name r)
                 (''tcp://'' @ ''127.0.0.1'' @ '':'' @ str_nat runner_port) (runner_bind_map st),
             circus_socket_map :=
               AList.update (runner_name r)
                 \<lparr>sock_name = runner_name r, sock_host = Some ''127.0.0.1'',
                  sock_port = Some (int runner_port), sock_path = None,
                  sock_backlog = backlog c\<rparr>
                 (circus_socket_map st),
             watchers := watchers st @ [windows_runner_watcher sys c r]\<rparr>), w1))"

fun windows_runner_loop ::
  "system \<Rightarrow> serve_params \<Rightarrow> runner list \<Rightarrow> loop_state \<Rightarrow> world \<Rightarrow> (exn + loop_state) \<times> world" where
  "windows_runner_loop sys c [] st w = (Inr st, w)"
| "windows_runner_loop sys c (r # rs) st w =
     (case windows_runner_step sys c r st w of
        (Inl e, w1) \<Rightarrow> (Inl e, w1)
      | (Inr st', w1) \<Rightarrow> windows_runner_loop sys c rs st' w1)"

text \<open>
  The \<^verbatim>\<open>with contextlib.ExitStack() as port_stack\<close> statement: the loop, one more
  reservation, and the closing of the stack on every way out. The stack is new, so it
  holds no context when the loop starts.
\<close>

definition windows_runners ::
  "system \<Rightarrow> serve_params \<Rightarrow> runner list \<Rightarrow> loop_state \<Rightarrow> world \<Rightarrow> (exn + loop_state) \<times> world" where
  "windows_runners sys c rs st w =
     (case windows_runner_loop sys c rs st (w\<lparr>port_stack := []\<rparr>) of
        (Inl e, w1) \<Rightarrow> (Inl e, close_port_stack w1)
      | (Inr st', w1) \<Rightarrow>
          (case enter_reserve_free_port w1 of
             (Inl e, w2) \<Rightarrow> (Inl e, close_port_stack w2)
           | (Inr extra, w2) \<Rightarrow> (Inr st', close_port_stack w2)))"

text \<open>The platform branch: the value of \<open>uds_path\<close> and the loop's variables.\<close>

definition runner_setup ::
  "system \<Rightarrow> serve_params \<Rightarrow> service \<Rightarrow> world \<Rightarrow> (exn + string option \<times> loop_state) \<times> world" where
  "runner_setup sys c svc w =
     (let st0 = \<lparr>runner_bind_map = [], circus_socket_map = [], watchers = []\<rparr> in
      case psutil_platform sys of
        Posix \<Rightarrow>
          (case mkdtemp w of
             (Inl e, w1) \<Rightarrow> (Inl e, w1)
           | (Inr uds_path, w1) \<Rightarrow>
               (case posix_runner_loop sys c uds_path (runners svc) st0 of
                  Inl e \<Rightarrow> (Inl e, w1)
                | Inr st \<Rightarrow> (Inr (Some uds_path, st), w1)))
      | Windows \<Rightarrow>
          (case windows_runners sys c (runners svc) st0 w of
             (Inl e, w1) \<Rightarrow> (Inl e, w1)
           | (Inr st, w1) \<Rightarrow> (Inr (None, st), w1))
      | OtherPlatform \<Rightarrow>
          (Inl (NotImplementedError (''Unsupported platform: '' @ sys_platform sys)), w))"

text \<open>\<^verbatim>\<open>api_workers or math.ceil(CpuResource.from_system())\<close>\<close>

definition api_numprocesses :: "system \<Rightarrow> serve_params \<Rightarrow> int" where
  "api_numprocesses sys c =
     (if truthy_int (api_workers c) then the (api_workers c) else \<lceil>cpu_from_system sys\<rceil>)"

definition api_server_socket :: "serve_params \<Rightarrow> circus_socket" where
  "api_server_socket c =
     \<lparr>sock_name = ''_bento_api_server'', sock_host = Some (host c), sock_port = Some (port c),
      sock_path = None, sock_backlog = backlog c\<rparr>"

text \<open>
  What \<^verbatim>\<open>serve_production\<close> has built when it calls
  \<^verbatim>\<open>create_standalone_arbiter\<close>: the watchers, the sockets
  (\<^verbatim>\<open>list(circus_socket_map.values())\<close>), and the local variables \<open>runner_bind_map\<close>,
  \<open>uds_path\<close> and \<open>prometheus_dir\<close>.
\<close>

record plan =
  plan_watchers :: "watcher list"
  plan_sockets :: "circus_socket list"
  plan_plugins :: "(string \<times> string) list list"
  plan_prometheus_dir :: string

record production_plan = plan +
  plan_runner_bind_map :: "(string \<times> string) list"
  plan_uds_path :: "string option"

definition serve_production_plan ::
  "system \<Rightarrow> serve_params \<Rightarrow> service \<Rightarrow> world \<Rightarrow> (exn + production_plan) \<times> world" where
  "serve_production_plan sys c svc w =
     (case ensure_prometheus_dir (prometheus_multiproc_dir w) True True w of
        (Inl e, w1) \<Rightarrow> (Inl e, w1)
      | (Inr prometheus_dir, w1) \<Rightarrow>
          (case runner_setup sys c svc w1 of
             (Inl e, w2) \<Rightarrow> (Inl e, w2)
           | (Inr (uds_path, st), w2) \<Rightarrow>
               (let socket_map = AList.update ''_bento_api_server'' (api_server_socket c)
                                   (circus_socket_map st);
                    api_watcher =
                      \<lparr>watcher_name = ''api_server'',
                       cmd = sys_executable sys,
                       args = api_server_watcher_args c (runner_bind_map st) prometheus_dir,
                       copy_env = True,
                       stop_children = True,
                       use_sockets = True,
                       watcher_working_dir = working_dir c,
                       numprocesses = api_numprocesses sys c,
                       close_child_stdin = Watcher_close_child_stdin_default\<rparr>
                in (Inr \<lparr>plan_watchers = watchers st @ [api_watcher],
                         plan_sockets = map snd socket_map,
                         plan_plugins = [],
                         plan_prometheus_dir = prometheus_dir,
                         plan_runner_bind_map = runner_bind_map st,
                         plan_uds_path = uds_path\<rparr>, w2))))"

text \<open>
  Modelled from the spec: \<^verbatim>\<open>create_standalone_arbiter\<close> and \<^verbatim>\<open>track_serve\<close> are
  not among the sources. The supervisor is given every socket and every watcher and
  then started by the single call \<^verbatim>\<open>arbiter.start\<close>, which blocks until the
  supervisor stops or raises; \<^verbatim>\<open>track_serve\<close> and the readiness callback only
  report.
\<close>

definition arbiter_start ::
  "system \<Rightarrow> watcher list \<Rightarrow> circus_socket list \<Rightarrow> world \<Rightarrow> (exn + unit) \<times> world" where
  "arbiter_start sys ws socks w =
     ((case arbiter_start_raises sys of None \<Rightarrow> Inr () | Some e \<Rightarrow> Inl e),
      w\<lparr>arbiters_started := arbiters_started w @ [(ws, socks)]\<rparr>)"

text \<open>
  \<^verbatim>\<open>serve_production\<close>: the planning, then \<^verbatim>\<open>arbiter.start\<close> inside
  \<^verbatim>\<open>try ... finally\<close>; the \<^verbatim>\<open>finally\<close> clause removes \<open>uds_path\<close> when it is not
  \<^verbatim>\<open>None\<close>. An exception of the \<^verbatim>\<open>finally\<close> clause replaces the one of the body.
\<close>

definition serve_production ::
  "system \<Rightarrow> serve_params \<Rightarrow> service \<Rightarrow> world \<Rightarrow> (exn + unit) \<times> world" where
  "serve_production sys c svc w =
     (case serve_production_plan sys c svc w of
        (Inl e, w1) \<Rightarrow> (Inl e, w1)
      | (Inr p, w1) \<Rightarrow>
          (case arbiter_start sys (plan_watchers p) (plan_sockets p) w1 of
             (r, w2) \<Rightarrow>
               (case plan_uds_path p of
                  None \<Rightarrow> (r, w2)
                | Some uds_path \<Rightarrow>
                    (case shutil_rmtree uds_path w2 of
                       (Inl e, w3) \<Rightarrow> (Inl e, w3)
                     | (Inr u, w3) \<Rightarrow> (r, w3)))))"

section \<open>Development planning\<close>

definition serve_development_plan ::
  "system \<Rightarrow> serve_params \<Rightarrow> service \<Rightarrow> world \<Rightarrow> (exn + plan) \<times> world" where
  "serve_development_plan sys c svc w =
     (case ensure_prometheus_dir (prometheus_multiproc_dir w) True True w of
        (Inl e, w1) \<Rightarrow> (Inl e, w1)
      | (Inr prometheus_dir, w1) \<Rightarrow>
          (let circus_sockets = [api_server_socket c];
               dev_watcher =
                 \<lparr>watcher_name = ''dev_api_server'',
                  cmd = sys_executable sys,
                  args = dev_api_server_watcher_args c prometheus_dir,
                  copy_env = True,
                  stop_children = True,
                  use_sockets = True,
                  watcher_working_dir = working_dir c,
                  numprocesses = Watcher_numprocesses_default,
                  close_child_stdin = False\<rparr>;
               w2 = (if reload c \<and> sys_platform sys = ''win32''
                     then w1\<lparr>warnings := warnings w1 @
                       [''Due to circus limitations, output from the reloader plugin will not be shown on Windows.'']\<rparr>
                     else w1);
               plugins =
                 (if reload c
                  then [[(''use'', ''bentoml._internal.utils.circus.watchfilesplugin.ServiceReloaderPlugin''),
                         (''working_dir'', working_dir c),
                         (''bentoml_home'', bentoml_home c)]]
                  else [])
           in (Inr \<lparr>plan_watchers = [dev_watcher],
                    plan_sockets = circus_sockets,
                    plan_plugins = plugins,
                    plan_prometheus_dir = prometheus_dir\<rparr>, w2)))"

definition serve_development ::
  "system \<Rightarrow> serve_params \<Rightarrow> service \<Rightarrow> world \<Rightarrow> (exn + unit) \<times> world" where
  "serve_development sys c svc w =
     (case serve_development_plan sys c svc w of
        (Inl e, w1) \<Rightarrow> (Inl e, w1)
      | (Inr p, w1) \<Rightarrow> arbiter_start sys (plan_watchers p) (plan_sockets p) w1)"

section \<open>The worker bootstrap\<close>

text \<open>The parameters of \<^verbatim>\<open>main\<close> as the command-line parser hands them over.\<close>

record main_params = ssl_params +
  main_bento_identifier :: string
  bind :: string
  runner_map :: "string option"
  main_backlog :: int
  main_working_dir :: "string option"
  worker_id :: "int option"
  main_prometheus_dir :: "string option"

text \<open>
  What the worker takes from outside: \<^verbatim>\<open>psutil.WINDOWS\<close>, and whether
  \<^verbatim>\<open>json.loads\<close>, \<^verbatim>\<open>bentoml.load\<close> and \<^verbatim>\<open>socket.socket(fileno=fd)\<close> raise.
\<close>

record worker_env =
  env_windows :: bool
  json_loads_raises :: "string \<Rightarrow> exn option"
  load_raises :: "exn option"
  socket_fileno_raises :: "int \<Rightarrow> exn option"

text \<open>
  \<^verbatim>\<open>urllib.parse.urlparse\<close>, its scheme and its network location: the scheme is the
  text before the first colon when that text is not empty, starts with a letter and has
  only scheme characters, in lower case; the network location follows a double slash
  and ends before the next slash, question mark or hash.
\<close>

definition ascii_upper :: string where
  "ascii_upper = ''ABCDEFGHIJKLMNOPQRSTUVWXYZ''"

definition ascii_lower :: string where
  "ascii_lower = ''abcdefghijklmnopqrstuvwxyz''"

definition lower_char :: "char \<Rightarrow> char" where
  "lower_char c = (case map_of (zip ascii_upper ascii_lower) c of Some d \<Rightarrow> d | None \<Rightarrow> c)"

definition scheme_chars :: string where
  "scheme_chars = ascii_lower @ ascii_upper @ ''0123456789+-.''"

record parse_result =
  scheme :: string
  netloc :: string

definition urlparse :: "string \<Rightarrow> parse_result" where
  "urlparse url =
     (let pre = takeWhile (\<lambda>c. c \<noteq> CHR '':'') url;
          has_scheme = (length pre < length url \<and> pre \<noteq> []
                        \<and> hd pre \<in> set (ascii_lower @ ascii_upper)
                        \<and> list_all (\<lambda>c. c \<in> set scheme_chars) pre);
          sch = (if has_scheme then map lower_char pre else []);
          rest = (if has_scheme then drop (Suc (length pre)) url else url);
          loc = (if take 2 rest = ''//''
                 then takeWhile (\<lambda>c. c \<notin> set ''/?#'') (drop 2 rest) else [])
      in \<lparr>scheme = sch, netloc = loc\<rparr>)"

text \<open>
  \<^verbatim>\<open>int(s)\<close> for a string: an optional sign and decimal digits. (Surrounding white
  space and underscores between digits, which Python also accepts, are not modelled.)
\<close>

definition digit_of :: "char \<Rightarrow> nat option" where
  "digit_of c = map_of (zip ''0123456789'' [0, 1, 2, 3, 4, 5, 6, 7, 8, 9]) c"

fun digits_value :: "string \<Rightarrow> nat \<Rightarrow> nat option" where
  "digits_value [] acc = Some acc"
| "digits_value (c # cs) acc =
     (case digit_of c of None \<Rightarrow> None | Some d \<Rightarrow> digits_value cs (10 * acc + d))"

definition py_int :: "string \<Rightarrow> exn + int" where
  "py_int s =
     (let neg = (s \<noteq> [] \<and> hd s = CHR ''-'');
          ds = (if s \<noteq> [] \<and> (hd s = CHR ''-'' \<or> hd s = CHR ''+'') then tl s else s)
      in if ds = [] then Inl (ValueError s)
         else (case digits_value ds 0 of
                 None \<Rightarrow> Inl (ValueError s)
               | Some n \<Rightarrow> Inr (if neg then - int n else int n)))"

text \<open>
  The socket calls of \<^verbatim>\<open>main\<close>: the standalone parent has a socket created from the
  bind URI (the nested supervisor binds it); the leaf worker wraps an inherited file
  descriptor.
\<close>

datatype socket_call = CreateCircusSocketFromUri string | SocketFromFileno int

datatype main_outcome =
    Supervised
  | Served "(string \<times> pyval) list" "int list"

text \<open>
  \<^verbatim>\<open>main\<close>. Without a worker identity it is the standalone parent, represented here
  by its socket call only. With one it is the leaf worker: the runner map is decoded,
  the service loaded, the option set built, the scheme asserted, the descriptor read
  from the network location, the socket wrapped and handed to the HTTP server.
\<close>

definition main :: "worker_env \<Rightarrow> main_params \<Rightarrow> (exn + main_outcome) \<times> socket_call list" where
  "main env p =
     (case worker_id p of
        None \<Rightarrow> (Inr Supervised, [CreateCircusSocketFromUri (bind p)])
      | Some wid \<Rightarrow>
          (case (case runner_map p of None \<Rightarrow> None | Some m \<Rightarrow> json_loads_raises env m) of
             Some e \<Rightarrow> (Inl e, [])
           | None \<Rightarrow>
               (case load_raises env of
                  Some e \<Rightarrow> (Inl e, [])
                | None \<Rightarrow>
                    (let parsed = urlparse (bind p);
                         opts = uvicorn_options (main_backlog p) (env_windows env) p
                     in if scheme parsed \<noteq> ''fd'' then (Inl AssertionError, [])
                        else (case py_int (netloc parsed) of
                                Inl e \<Rightarrow> (Inl e, [])
                              | Inr fd \<Rightarrow>
                                  (case socket_fileno_raises env fd of
                                     Some e \<Rightarrow> (Inl e, [SocketFromFileno fd])
                                   | None \<Rightarrow>
                                       (Inr (Served opts [fd]), [SocketFromFileno fd])))))))"

section \<open>Auxiliary notions for the statements\<close>

text \<open>The two elements that a present optional parameter adds to an argument vector.\<close>

definition opt_segment :: "string \<Rightarrow> string option \<Rightarrow> string list" where
  "opt_segment flag v = (case v of Some x \<Rightarrow> [flag, x] | None \<Rightarrow> [])"

text \<open>
  The keys of a Python dictionary after assignments to the keys \<open>new\<close>, in order: a key
  that is already present keeps its place, a new key goes to the end.
\<close>

definition add_key :: "'a \<Rightarrow> 'a list \<Rightarrow> 'a list" where
  "add_key k ks = (if k \<in> set ks then ks else ks @ [k])"

definition dict_keys :: "'a list \<Rightarrow> 'a list \<Rightarrow> 'a list" where
  "dict_keys new ks = fold add_key new ks"

text \<open>Every socket of the socket map is stored under its own name.\<close>

definition names_match :: "(string \<times> circus_socket) list \<Rightarrow> bool" where
  "names_match m = list_all (\<lambda>e. sock_name (snd e) = fst e) m"

text \<open>The socket path that the POSIX branch composes for a runner.\<close>

definition socket_path_of :: "string \<Rightarrow> runner \<Rightarrow> string" where
  "socket_path_of uds_path r = os_path_join uds_path (str_nat (runner_id r) @ ''.sock'')"

text \<open>The socket that the Windows branch builds for a runner on a reserved port.\<close>

definition windows_socket :: "serve_params \<Rightarrow> runner \<Rightarrow> nat \<Rightarrow> circus_socket" where
  "windows_socket c r q =
     \<lparr>sock_name = runner_name r, sock_host = Some ''127.0.0.1'', sock_port = Some (int q),
      sock_path = None, sock_backlog = backlog c\<rparr>"

text \<open>A TCP socket on the loopback address whose port is one of the given ports.\<close>

definition loopback_on :: "nat list \<Rightarrow> circus_socket \<Rightarrow> bool" where
  "loopback_on ports s =
     (sock_host s = Some ''127.0.0.1'' \<and> sock_path s = None
      \<and> list_ex (\<lambda>q. sock_port s = Some (int q)) ports)"

text \<open>
  The file-system calls leave everything but the file system, the name supply, the
  warnings and the configuration container alone.
\<close>

definition frame :: "world \<Rightarrow> world \<Rightarrow> bool" where
  "frame w w' \<longleftrightarrow>
     denied w' = denied w \<and> cwd w' = cwd w \<and> tmpdir w' = tmpdir w
     \<and> bound_ports w' = bound_ports w \<and> port_prefs w' = port_prefs w
     \<and> port_stack w' = port_stack w \<and> port_log w' = port_log w
     \<and> arbiters_started w' = arbiters_started w"

text \<open>A file system is well formed when every ancestor of an entry is a directory.\<close>

definition wf_fs :: "world \<Rightarrow> bool" where
  "wf_fs w = list_all (\<lambda>q. list_all (\<lambda>n. is_dir w (take n q)) [0..<length q]) (map fst (fs w))"

text \<open>
  \<open>grows_below p w w'\<close>: the step from \<open>w\<close> to \<open>w'\<close> keeps every entry and adds only
  entries that are \<open>p\<close> or ancestors of \<open>p\<close>.
\<close>

definition grows_below :: "fpath \<Rightarrow> world \<Rightarrow> world \<Rightarrow> bool" where
  "grows_below p w w' \<longleftrightarrow>
     frame w w' \<and> (wf_fs w \<longrightarrow> wf_fs w')
     \<and> warnings w' = warnings w \<and> tmp_names w' = tmp_names w
     \<and> prometheus_multiproc_dir w' = prometheus_multiproc_dir w
     \<and> fst ` set (fs w) \<subseteq> fst ` set (fs w')
     \<and> fst ` set (fs w') \<subseteq> fst ` set (fs w) \<union> {q. prefix q p}"

text \<open>
  A step of the file-system calls: the frame holds, well-formedness is kept, and the
  warnings, the name supply and the configuration container are unchanged.
\<close>

definition fs_step :: "world \<Rightarrow> world \<Rightarrow> bool" where
  "fs_step w w' \<longleftrightarrow>
     frame w w' \<and> (wf_fs w \<longrightarrow> wf_fs w') \<and> warnings w' = warnings w
     \<and> tmp_names w' = tmp_names w
     \<and> prometheus_multiproc_dir w' = prometheus_multiproc_dir w"

text \<open>The loop variables of \<^verbatim>\<open>serve_production\<close> before the runner loop.\<close>

definition st0 :: loop_state where
  "st0 = \<lparr>runner_bind_map = [], circus_socket_map = [], watchers = []\<rparr>"

text \<open>The watcher of the API server as \<^verbatim>\<open>serve_production\<close> builds it.\<close>

definition api_watcher :: "system \<Rightarrow> serve_params \<Rightarrow> (string \<times> string) list \<Rightarrow> string \<Rightarrow> watcher" where
  "api_watcher sys c m d =
     \<lparr>watcher_name = ''api_server'',
      cmd = sys_executable sys,
      args = api_server_watcher_args c m d,
      copy_env = True,
      stop_children = True,
      use_sockets = True,
      watcher_working_dir = working_dir c,
      numprocesses = api_numprocesses sys c,
      close_child_stdin = Watcher_close_child_stdin_default\<rparr>"

text \<open>Example inputs for the closed theorems.\<close>

definition no_ssl :: ssl_params where
  "no_ssl =
     \<lparr>ssl_keyfile = None, ssl_certfile = None, ssl_keyfile_password = None,
      ssl_version = None, ssl_cert_reqs = None, ssl_ca_certs = None, ssl_ciphers = None\<rparr>"

definition iris_params :: serve_params where
  "iris_params =
     ssl_params.extend no_ssl
       (serve_params.fields ''iris_classifier:latest'' ''/srv/iris'' 3000 ''0.0.0.0'' 2048
          None False ''/home/bento'')"

definition tcp_leaf_params :: main_params where
  "tcp_leaf_params =
     ssl_params.extend no_ssl
       (main_params.fields ''iris_classifier:latest'' ''tcp://127.0.0.1:3000'' None 2048 None
          (Some 1) None)"

definition quiet_env :: worker_env where
  "quiet_env =
     \<lparr>env_windows = False, json_loads_raises = (\<lambda>s. None), load_raises = None,
      socket_fileno_raises = (\<lambda>fd. None)\<rparr>"

text \<open>
  A world with a metrics directory \<^verbatim>\<open>/srv/metrics\<close>, a temporary directory \<^verbatim>\<open>/tmp\<close>,
  and a service with two runners.
\<close>

definition healthy_world :: world where
  "healthy_world =
     \<lparr>fs = [([], Dir), ([''tmp''], Dir), ([''srv''], Dir), ([''srv'', ''metrics''], Dir)],
      denied = [],
      cwd = [''srv''],
      tmpdir = [''tmp''],
      tmp_names = [''tmpk3x9q2ab'', ''tmp7fh2m1zz''],
      warnings = [],
      prometheus_multiproc_dir = ''/srv/metrics'',
      bound_ports = [],
      port_prefs = [49152, 49153, 49154, 49155],
      port_stack = [],
      port_log = [],
      arbiters_started = []\<rparr>"

definition embedder :: runner where
  "embedder = \<lparr>runner_name = ''embedder'', scheduled_worker_count = 2,
                runner_id = 140234866042576\<rparr>"

definition classifier :: runner where
  "classifier = \<lparr>runner_name = ''classifier'', scheduled_worker_count = 1,
                  runner_id = 140234866042960\<rparr>"

definition two_runner_service :: service where
  "two_runner_service = \<lparr>runners = [embedder, classifier]\<rparr>"

definition posix_system :: system where
  "posix_system =
     \<lparr>psutil_platform = Posix, sys_executable = ''/usr/bin/python3'', sys_platform = ''linux'',
      cpu_from_system = 7 / 2, arbiter_start_raises = None\<rparr>"

definition windows_system :: system where
  "windows_system =
     \<lparr>psutil_platform = Windows, sys_executable = ''python.exe'', sys_platform = ''win32'',
      cpu_from_system = 7 / 2, arbiter_start_raises = None\<rparr>"

text \<open>Further example inputs.\<close>

definition zero_workers_params :: serve_params where
  "zero_workers_params = iris_params\<lparr>api_workers := Some 0\<rparr>"

definition clashing_runner :: runner where
  "clashing_runner = \<lparr>runner_name = ''_bento_api_server'', scheduled_worker_count = 1,
                        runner_id = 140234866042576\<rparr>"

definition clashing_service :: service where
  "clashing_service = \<lparr>runners = [clashing_runner]\<rparr>"

definition embedder_twin :: runner where
  "embedder_twin = \<lparr>runner_name = ''embedder'', scheduled_worker_count = 3,
                      runner_id = 140234866042960\<rparr>"



definition long_tmpdir :: fpath where
  "long_tmpdir = [''home'', ''alice'', ''projects'', ''model-serving'', ''deployments'',
                  ''fraud-detection'', ''production'', ''tmp'']"

definition long_tmp_world :: world where
  "long_tmp_world =
     healthy_world\<lparr>fs := [([], Dir), ([''srv''], Dir), ([''srv'', ''metrics''], Dir),
                           ([''home''], Dir), ([''home'', ''alice''], Dir),
                           ([''home'', ''alice'', ''projects''], Dir),
                           ([''home'', ''alice'', ''projects'', ''model-serving''], Dir),
                           ([''home'', ''alice'', ''projects'', ''model-serving'',
                             ''deployments''], Dir),
                           ([''home'', ''alice'', ''projects'', ''model-serving'',
                             ''deployments'', ''fraud-detection''], Dir),
                           ([''home'', ''alice'', ''projects'', ''model-serving'',
                             ''deployments'', ''fraud-detection'', ''production''], Dir),
                           (long_tmpdir, Dir)],
                    tmpdir := long_tmpdir\<rparr>"

definition long_uds_path :: string where
  "long_uds_path =
     ''/home/alice/projects/model-serving/deployments/fraud-detection/production/tmp/tmpk3x9q2ab''"

text \<open>Worlds in which file-system calls fail, and a supervisor that is interrupted.\<close>

definition interrupted_system :: system where
  "interrupted_system = posix_system\<lparr>arbiter_start_raises := Some KeyboardInterrupt\<rparr>"

definition readonly_metrics_world :: world where
  "readonly_metrics_world =
     healthy_world\<lparr>fs := [([], Dir), ([''tmp''], Dir), ([''srv''], Dir)],
                    denied := [[''srv'', ''metrics'']]\<rparr>"

definition sealed_world :: world where
  "sealed_world =
     healthy_world\<lparr>fs := [([], Dir), ([''tmp''], Dir), ([''srv''], Dir)],
                    denied := [[''srv'', ''metrics''], [''tmp'', ''tmpk3x9q2ab'']]\<rparr>"

definition nonempty_world :: world where
  "nonempty_world =
     healthy_world\<lparr>fs := fs healthy_world @ [([''srv'', ''metrics'', ''old.db''], File)]\<rparr>"



text \<open>
  Two files in the metrics directory, the second of which cannot be removed; and a
  metrics directory that cannot be removed itself, as when its parent is read-only.
\<close>

definition half_locked_world :: world where
  "half_locked_world =
     healthy_world\<lparr>fs := fs healthy_world @ [([''srv'', ''metrics'', ''old.db''], File),
                                             ([''srv'', ''metrics'', ''live.db''], File)],
                    denied := [[''srv'', ''metrics'', ''live.db'']]\<rparr>"

definition locked_parent_world :: world where
  "locked_parent_world = nonempty_world\<lparr>denied := [[''srv'', ''metrics'']]\<rparr>"

section \<open>TLS parameter forwarding\<close>

lemma extend_if_present_append: "extend_if_present xs flag v = xs @ opt_segment flag v"
  by (simp add: extend_if_present_def opt_segment_def split: option.splits)

lemma map_of_pairs_opt_segment:
  "map_of (pairs (opt_segment flag v @ rest)) k =
     (if k = flag \<and> v \<noteq> None then v else map_of (pairs rest) k)"
  by (auto simp add: opt_segment_def split: option.splits)

lemma present_map_option: "present (map_option f v) = present v"
  by (simp add: present_def split: option.splits)

lemma length_opt_segment: "length (opt_segment flag v) = 2 * present v"
  by (simp add: opt_segment_def present_def split: option.splits)

lemma map_of_set_if:
  "map_of (set_if b k v d) k' = (if b \<and> k' = k then Some v else map_of d k')"
  by (simp add: set_if_def AList.update_conv')

lemma extend_ssl_args_append:
  "extend_ssl_args xs c = xs @
     opt_segment ''--ssl-keyfile'' (ssl_keyfile c) @
     opt_segment ''--ssl-certfile'' (ssl_certfile c) @
     opt_segment ''--ssl-keyfile-password'' (ssl_keyfile_password c) @
     opt_segment ''--ssl-version'' (map_option str_int (ssl_version c)) @
     opt_segment ''--ssl-cert-reqs'' (map_option str_int (ssl_cert_reqs c)) @
     opt_segment ''--ssl-ca-certs'' (ssl_ca_certs c) @
     opt_segment ''--ssl-ciphers'' (ssl_ciphers c)"
  by (simp add: extend_ssl_args_def Let_def extend_if_present_append)

lemma options_of_api:
  "options_of (api_server_watcher_args c m d) =
     [(''--bind'', ''fd://$(circus.sockets._bento_api_server)''),
      (''--runner-map'', json_dumps m),
      (''--working-dir'', working_dir c),
      (''--backlog'', str_int (backlog c)),
      (''--worker-id'', ''$(CIRCUS.WID)''),
      (''--prometheus-dir'', d)] @
     pairs (opt_segment ''--ssl-keyfile'' (ssl_keyfile c) @
     opt_segment ''--ssl-certfile'' (ssl_certfile c) @
     opt_segment ''--ssl-keyfile-password'' (ssl_keyfile_password c) @
     opt_segment ''--ssl-version'' (map_option str_int (ssl_version c)) @
     opt_segment ''--ssl-cert-reqs'' (map_option str_int (ssl_cert_reqs c)) @
     opt_segment ''--ssl-ca-certs'' (ssl_ca_certs c) @
     opt_segment ''--ssl-ciphers'' (ssl_ciphers c) @ [])"
  by (simp add: options_of_def api_server_watcher_args_def extend_ssl_args_append)

lemma options_of_dev:
  "options_of (dev_api_server_watcher_args c d) =
     [(''--bind'', ''fd://$(circus.sockets._bento_api_server)''),
      (''--working-dir'', working_dir c),
      (''--prometheus-dir'', d)] @
     pairs (opt_segment ''--ssl-keyfile'' (ssl_keyfile c) @
     opt_segment ''--ssl-certfile'' (ssl_certfile c) @
     opt_segment ''--ssl-keyfile-password'' (ssl_keyfile_password c) @
     opt_segment ''--ssl-version'' (map_option str_int (ssl_version c)) @
     opt_segment ''--ssl-cert-reqs'' (map_option str_int (ssl_cert_reqs c)) @
     opt_segment ''--ssl-ca-certs'' (ssl_ca_certs c) @
     opt_segment ''--ssl-ciphers'' (ssl_ciphers c) @ [])"
  by (simp add: options_of_def dev_api_server_watcher_args_def extend_ssl_args_append)

lemma api_option_keyfile:
  "map_of (options_of (api_server_watcher_args c m d)) ''--ssl-keyfile'' = ssl_keyfile c"
  by (simp add: options_of_api map_of_pairs_opt_segment del: append_Nil2)

lemma api_option_certfile:
  "map_of (options_of (api_server_watcher_args c m d)) ''--ssl-certfile'' = ssl_certfile c"
  by (simp add: options_of_api map_of_pairs_opt_segment del: append_Nil2)

lemma api_option_keyfile_password:
  "map_of (options_of (api_server_watcher_args c m d)) ''--ssl-keyfile-password''
     = ssl_keyfile_password c"
  by (simp add: options_of_api map_of_pairs_opt_segment del: append_Nil2)

lemma api_option_version:
  "map_of (options_of (api_server_watcher_args c m d)) ''--ssl-version''
     = map_option str_int (ssl_version c)"
  by (simp add: options_of_api map_of_pairs_opt_segment del: append_Nil2)

lemma api_option_cert_reqs:
  "map_of (options_of (api_server_watcher_args c m d)) ''--ssl-cert-reqs''
     = map_option str_int (ssl_cert_reqs c)"
  by (simp add: options_of_api map_of_pairs_opt_segment del: append_Nil2)

lemma api_option_ca_certs:
  "map_of (options_of (api_server_watcher_args c m d)) ''--ssl-ca-certs'' = ssl_ca_certs c"
  by (simp add: options_of_api map_of_pairs_opt_segment del: append_Nil2)

lemma api_option_ciphers:
  "map_of (options_of (api_server_watcher_args c m d)) ''--ssl-ciphers'' = ssl_ciphers c"
  by (simp add: options_of_api map_of_pairs_opt_segment del: append_Nil2)

lemma api_option_prometheus_dir:
  "map_of (options_of (api_server_watcher_args c m d)) ''--prometheus-dir'' = Some d"
  by (simp add: options_of_api)

lemma api_args_length:
  "length (api_server_watcher_args c m d) = 15 + 2 * ssl_present_count c"
  by (simp add: api_server_watcher_args_def extend_ssl_args_append length_opt_segment
      ssl_present_count_def present_map_option)

lemma uvicorn_option_keyfile:
  "map_of (uvicorn_options b win p) ''ssl_keyfile''
     = (if truthy_str (ssl_keyfile p) then map_option PStr (ssl_keyfile p) else None)"
  by (auto simp add: uvicorn_options_def Let_def map_of_set_if pstr_def truthy_str_def
      split: option.splits)

lemma uvicorn_option_certfile:
  "map_of (uvicorn_options b win p) ''ssl_certfile''
     = (if truthy_str (ssl_certfile p) then map_option PStr (ssl_certfile p) else None)"
  by (auto simp add: uvicorn_options_def Let_def map_of_set_if pstr_def truthy_str_def
      split: option.splits)

lemma uvicorn_option_keyfile_password:
  "map_of (uvicorn_options b win p) ''ssl_keyfile_password''
     = (if truthy_str (ssl_keyfile_password p)
        then map_option PStr (ssl_keyfile_password p) else None)"
  by (auto simp add: uvicorn_options_def Let_def map_of_set_if pstr_def truthy_str_def
      split: option.splits)

lemma uvicorn_option_version:
  "map_of (uvicorn_options b win p) ''ssl_version''
     = (if truthy_int (ssl_version p) then map_option PInt (ssl_version p) else None)"
  by (auto simp add: uvicorn_options_def Let_def map_of_set_if pint_def truthy_int_def
      split: option.splits)

lemma uvicorn_option_cert_reqs:
  "map_of (uvicorn_options b win p) ''ssl_cert_reqs''
     = (if truthy_int (ssl_cert_reqs p) then map_option PInt (ssl_cert_reqs p) else None)"
  by (auto simp add: uvicorn_options_def Let_def map_of_set_if pint_def truthy_int_def
      split: option.splits)

lemma uvicorn_option_ca_certs:
  "map_of (uvicorn_options b win p) ''ssl_ca_certs''
     = (if truthy_str (ssl_ca_certs p) then map_option PStr (ssl_ca_certs p) else None)"
  by (auto simp add: uvicorn_options_def Let_def map_of_set_if pstr_def truthy_str_def
      split: option.splits)

lemma uvicorn_option_ciphers:
  "map_of (uvicorn_options b win p) ''ssl_ciphers''
     = (if truthy_str (ssl_ciphers p) then map_option PStr (ssl_ciphers p) else None)"
  by (auto simp add: uvicorn_options_def Let_def map_of_set_if pstr_def truthy_str_def
      split: option.splits)

lemma str_nat_0: "str_nat 0 = ''0''"
  by (simp add: str_nat.simps digit_char_def)

lemma str_int_0: "str_int 0 = ''0''"
  by (simp add: str_int_def str_nat_0)

definition cert_reqs_zero_params :: serve_params where
  "cert_reqs_zero_params = iris_params\<lparr>ssl_cert_reqs := Some 0\<rparr>"

definition key_cert_params :: serve_params where
  "key_cert_params =
     iris_params\<lparr>ssl_keyfile := Some ''/etc/tls/key.pem'', ssl_certfile := Some ''/etc/tls/cert.pem''\<rparr>"

text \<open>
  C3, as stated, fails: with the peer-certificate requirement mode set to \<open>0\<close>, the
  parameter is present and the API-server argument vector carries its flag with the
  value \<^verbatim>\<open>0\<close>, but the option set that the worker hands to the HTTP server has no
  entry for it, because the worker tests the parameter for truth.
\<close>

theorem tls_falsy_value_dropped_by_worker:
  "ssl_cert_reqs cert_reqs_zero_params = Some 0
   \<and> map_of (options_of (api_server_watcher_args cert_reqs_zero_params [] ''/prom''))
        ''--ssl-cert-reqs'' = Some ''0''
   \<and> map_of (uvicorn_options 2048 False cert_reqs_zero_params) ''ssl_cert_reqs'' = None"
  by (simp add: api_option_cert_reqs uvicorn_option_cert_reqs cert_reqs_zero_params_def
      truthy_int_def str_int_0)

text \<open>
  C3, amended: for every choice of the seven optional TLS parameters, the API-server
  argument vector of \<^verbatim>\<open>serve_production\<close> carries exactly the parameters that are
  present (not \<^verbatim>\<open>None\<close>), each as its flag followed by its value, and nothing for an
  absent one: the vector has the fifteen fixed elements and two more per present
  parameter. The option set that the worker hands to the HTTP server holds exactly the
  parameters whose value is truthy (a non-empty string, a non-zero integer), with their
  values, and no entry for the others.
\<close>

theorem tls_parameters_forwarded:
  "map_of (options_of (api_server_watcher_args c m d)) ''--ssl-keyfile'' = ssl_keyfile c
   \<and> map_of (options_of (api_server_watcher_args c m d)) ''--ssl-certfile'' = ssl_certfile c
   \<and> map_of (options_of (api_server_watcher_args c m d)) ''--ssl-keyfile-password''
        = ssl_keyfile_password c
   \<and> map_of (options_of (api_server_watcher_args c m d)) ''--ssl-version''
        = map_option str_int (ssl_version c)
   \<and> map_of (options_of (api_server_watcher_args c m d)) ''--ssl-cert-reqs''
        = map_option str_int (ssl_cert_reqs c)
   \<and> map_of (options_of (api_server_watcher_args c m d)) ''--ssl-ca-certs'' = ssl_ca_certs c
   \<and> map_of (options_of (api_server_watcher_args c m d)) ''--ssl-ciphers'' = ssl_ciphers c
   \<and> length (api_server_watcher_args c m d) = 15 + 2 * ssl_present_count c
   \<and> map_of (uvicorn_options b win c) ''ssl_keyfile''
        = (if truthy_str (ssl_keyfile c) then map_option PStr (ssl_keyfile c) else None)
   \<and> map_of (uvicorn_options b win c) ''ssl_certfile''
        = (if truthy_str (ssl_certfile c) then map_option PStr (ssl_certfile c) else None)
   \<and> map_of (uvicorn_options b win c) ''ssl_keyfile_password''
        = (if truthy_str (ssl_keyfile_password c)
           then map_option PStr (ssl_keyfile_password c) else None)
   \<and> map_of (uvicorn_options b win c) ''ssl_version''
        = (if truthy_int (ssl_version c) then map_option PInt (ssl_version c) else None)
   \<and> map_of (uvicorn_options b win c) ''ssl_cert_reqs''
        = (if truthy_int (ssl_cert_reqs c) then map_option PInt (ssl_cert_reqs c) else None)
   \<and> map_of (uvicorn_options b win c) ''ssl_ca_certs''
        = (if truthy_str (ssl_ca_certs c) then map_option PStr (ssl_ca_certs c) else None)
   \<and> map_of (uvicorn_options b win c) ''ssl_ciphers''
        = (if truthy_str (ssl_ciphers c) then map_option PStr (ssl_ciphers c) else None)"
  by (simp only: api_option_keyfile api_option_certfile api_option_keyfile_password
      api_option_version api_option_cert_reqs api_option_ca_certs api_option_ciphers
      api_args_length uvicorn_option_keyfile uvicorn_option_certfile
      uvicorn_option_keyfile_password uvicorn_option_version uvicorn_option_cert_reqs
      uvicorn_option_ca_certs uvicorn_option_ciphers simp_thms)

text \<open>
  The instance with only the key file and the certificate file set: the vector has
  19 elements, the two flags with their values and none of the other five.
\<close>

theorem tls_parameters_forwarded_witness:
  "map_of (options_of (api_server_watcher_args key_cert_params [] ''/prom'')) ''--ssl-keyfile''
     = Some ''/etc/tls/key.pem''
   \<and> map_of (options_of (api_server_watcher_args key_cert_params [] ''/prom'')) ''--ssl-certfile''
     = Some ''/etc/tls/cert.pem''
   \<and> map_of (options_of (api_server_watcher_args key_cert_params [] ''/prom''))
        ''--ssl-keyfile-password'' = None
   \<and> map_of (options_of (api_server_watcher_args key_cert_params [] ''/prom'')) ''--ssl-version''
     = None
   \<and> map_of (options_of (api_server_watcher_args key_cert_params [] ''/prom'')) ''--ssl-cert-reqs''
     = None
   \<and> map_of (options_of (api_server_watcher_args key_cert_params [] ''/prom'')) ''--ssl-ca-certs''
     = None
   \<and> map_of (options_of (api_server_watcher_args key_cert_params [] ''/prom'')) ''--ssl-ciphers''
     = None
   \<and> length (api_server_watcher_args key_cert_params [] ''/prom'') = 19
   \<and> map_of (uvicorn_options 2048 False key_cert_params) ''ssl_keyfile''
     = Some (PStr ''/etc/tls/key.pem'')
   \<and> map_of (uvicorn_options 2048 False key_cert_params) ''ssl_cert_reqs'' = None"
  using tls_parameters_forwarded [of key_cert_params "[]" "''/prom''" 2048 False]
  by (simp add: key_cert_params_def iris_params_def no_ssl_def ssl_params.defs
      serve_params.defs ssl_present_count_def present_def truthy_str_def truthy_int_def)

section \<open>The leaf worker adopts its inherited socket\<close>

lemma urlparse_tcp:
  "urlparse ''tcp://127.0.0.1:3000'' = \<lparr>scheme = ''tcp'', netloc = ''127.0.0.1:3000''\<rparr>"
  by (simp add: urlparse_def Let_def ascii_lower_def ascii_upper_def scheme_chars_def
      lower_char_def)

lemma urlparse_fd: "urlparse ''fd://7'' = \<lparr>scheme = ''fd'', netloc = ''7''\<rparr>"
  by (simp add: urlparse_def Let_def ascii_lower_def ascii_upper_def scheme_chars_def
      lower_char_def)

lemma py_int_7: "py_int ''7'' = Inr 7"
  by (simp add: py_int_def digit_of_def)

lemma leaf_worker_serves_on_fd:
  "main quiet_env (tcp_leaf_params\<lparr>bind := ''fd://7''\<rparr>)
     = (Inr (Served [(''backlog'', PInt 2048), (''log_config'', PNone), (''workers'', PInt 1)] [7]),
        [SocketFromFileno 7])"
  by (simp add: main_def tcp_leaf_params_def quiet_env_def urlparse_fd py_int_7
      uvicorn_options_def Let_def set_if_def truthy_str_def truthy_int_def no_ssl_def
      ssl_params.defs main_params.defs)

text \<open>
  C9: a leaf worker (\<open>worker_id\<close> present) whose bind URI has a scheme other than
  \<^verbatim>\<open>fd\<close> fails without serving and without any socket call; when neither the decoding
  of the runner map nor the loading of the service has raised before, the failure is
  the assertion on the scheme. In no case does a leaf worker create a socket from an
  address: every socket call it makes wraps a file descriptor, and when it serves, it
  serves on exactly the descriptor named by the URI. It never becomes a supervisor.
\<close>

theorem leaf_worker_adopts_inherited_fd:
  assumes "worker_id p \<noteq> None"
  shows "(scheme (urlparse (bind p)) \<noteq> ''fd'' \<longrightarrow> (\<exists>e. main env p = (Inl e, [])))
       \<and> (scheme (urlparse (bind p)) \<noteq> ''fd''
            \<and> (case runner_map p of None \<Rightarrow> None | Some m \<Rightarrow> json_loads_raises env m) = None
            \<and> load_raises env = None
          \<longrightarrow> main env p = (Inl AssertionError, []))
       \<and> (\<forall>call \<in> set (snd (main env p)). \<exists>fd. call = SocketFromFileno fd)
       \<and> (\<forall>opts fds. fst (main env p) = Inr (Served opts fds)
            \<longrightarrow> scheme (urlparse (bind p)) = ''fd''
              \<and> (\<exists>fd. py_int (netloc (urlparse (bind p))) = Inr fd \<and> fds = [fd]
                       \<and> snd (main env p) = [SocketFromFileno fd]))
       \<and> fst (main env p) \<noteq> Inr Supervised"
  using assms
  by (auto simp add: main_def Let_def split: option.splits sum.splits)

theorem leaf_worker_adopts_inherited_fd_witness:
  "worker_id tcp_leaf_params \<noteq> None
   \<and> scheme (urlparse (bind tcp_leaf_params)) \<noteq> ''fd''
   \<and> main quiet_env tcp_leaf_params = (Inl AssertionError, [])"
  using leaf_worker_adopts_inherited_fd [of tcp_leaf_params quiet_env]
  by (simp add: tcp_leaf_params_def quiet_env_def urlparse_tcp no_ssl_def
      ssl_params.defs main_params.defs)

section \<open>The runner loops\<close>

lemma update_keys_add_key: "map fst (AList.update k v al) = add_key k (map fst al)"
  by (simp add: AList.update_keys add_key_def)

lemma dict_keys_Nil [simp]: "dict_keys [] ks = ks"
  by (simp add: dict_keys_def)

lemma dict_keys_Cons [simp]: "dict_keys (k # new) ks = dict_keys new (add_key k ks)"
  by (simp add: dict_keys_def)

lemma set_dict_keys: "set (dict_keys new ks) = set ks \<union> set new"
  by (induction new arbitrary: ks) (auto simp add: add_key_def)

lemma distinct_dict_keys: "distinct ks \<Longrightarrow> distinct (dict_keys new ks)"
  by (induction new arbitrary: ks) (auto simp add: add_key_def)

lemma dict_keys_fresh:
  "distinct new \<Longrightarrow> set new \<inter> set ks = {} \<Longrightarrow> dict_keys new ks = ks @ new"
  by (induction new arbitrary: ks) (auto simp add: add_key_def)

lemma length_dict_keys: "distinct ks \<Longrightarrow> length (dict_keys new ks) = card (set ks \<union> set new)"
  using distinct_card [OF distinct_dict_keys, of ks new] by (simp add: set_dict_keys)

lemma set_update_subset: "set (AList.update k v al) \<subseteq> insert (k, v) (set al)"
  by (induction al) auto

lemma names_match_update:
  "names_match m \<Longrightarrow> sock_name s = k \<Longrightarrow> names_match (AList.update k s m)"
  using set_update_subset [of k s m] by (auto simp add: names_match_def list_all_iff)

lemma names_match_map: "names_match m \<Longrightarrow> map sock_name (map snd m) = map fst m"
  by (induction m) (auto simp add: names_match_def)

lemma posix_runner_step_Inr:
  assumes "posix_runner_step sys c uds r st = Inr st'"
  shows "watchers st' = watchers st @ [posix_runner_watcher sys c r]"
    and "map fst (runner_bind_map st') = add_key (runner_name r) (map fst (runner_bind_map st))"
    and "map fst (circus_socket_map st') = add_key (runner_name r) (map fst (circus_socket_map st))"
    and "names_match (circus_socket_map st) \<Longrightarrow> names_match (circus_socket_map st')"
    and "length (socket_path_of uds r) < MAX_AF_UNIX_PATH_LENGTH"
  using assms
  by (auto simp add: posix_runner_step_def Let_def update_keys_add_key names_match_update
      socket_path_of_def split: if_splits)

lemma posix_runner_step_cases:
  "posix_runner_step sys c uds r st = Inl AssertionError
     \<and> \<not> length (socket_path_of uds r) < MAX_AF_UNIX_PATH_LENGTH
   \<or> (\<exists>st'. posix_runner_step sys c uds r st = Inr st'
        \<and> length (socket_path_of uds r) < MAX_AF_UNIX_PATH_LENGTH)"
  by (simp add: posix_runner_step_def Let_def socket_path_of_def)

lemma posix_runner_loop_Inr:
  assumes "posix_runner_loop sys c uds rs st = Inr st'"
  shows "watchers st' = watchers st @ map (posix_runner_watcher sys c) rs
       \<and> map fst (runner_bind_map st') = dict_keys (map runner_name rs) (map fst (runner_bind_map st))
       \<and> map fst (circus_socket_map st')
           = dict_keys (map runner_name rs) (map fst (circus_socket_map st))
       \<and> (names_match (circus_socket_map st) \<longrightarrow> names_match (circus_socket_map st'))
       \<and> (\<forall>r \<in> set rs. length (socket_path_of uds r) < MAX_AF_UNIX_PATH_LENGTH)"
  using assms
proof (induction rs arbitrary: st)
  case Nil
  then show ?case by simp
next
  case (Cons r rs)
  from Cons.prems obtain st1 where
    step: "posix_runner_step sys c uds r st = Inr st1"
    and rest: "posix_runner_loop sys c uds rs st1 = Inr st'"
    by (auto split: sum.splits)
  from Cons.IH [OF rest] posix_runner_step_Inr [OF step]
  show ?case by simp
qed

lemma posix_runner_loop_long:
  assumes "\<exists>r \<in> set rs. \<not> length (socket_path_of uds r) < MAX_AF_UNIX_PATH_LENGTH"
  shows "posix_runner_loop sys c uds rs st = Inl AssertionError"
  using assms
proof (induction rs arbitrary: st)
  case Nil
  then show ?case by simp
next
  case (Cons r rs)
  show ?case
  proof (cases "length (socket_path_of uds r) < MAX_AF_UNIX_PATH_LENGTH")
    case True
    with posix_runner_step_cases [of sys c uds r st] obtain st1 where
      "posix_runner_step sys c uds r st = Inr st1" by auto
    moreover from True Cons.prems
    have "\<exists>r \<in> set rs. \<not> length (socket_path_of uds r) < MAX_AF_UNIX_PATH_LENGTH" by auto
    ultimately show ?thesis using Cons.IH by simp
  next
    case False
    with posix_runner_step_cases [of sys c uds r st]
    have "posix_runner_step sys c uds r st = Inl AssertionError" by auto
    then show ?thesis by simp
  qed
qed

lemma posix_runner_loop_short:
  assumes "\<forall>r \<in> set rs. length (socket_path_of uds r) < MAX_AF_UNIX_PATH_LENGTH"
  shows "\<exists>st'. posix_runner_loop sys c uds rs st = Inr st'"
  using assms
proof (induction rs arbitrary: st)
  case Nil
  then show ?case by simp
next
  case (Cons r rs)
  with posix_runner_step_cases [of sys c uds r st] obtain st1 where
    "posix_runner_step sys c uds r st = Inr st1" by auto
  with Cons show ?case by simp
qed

lemma reserve_free_port_Inr:
  assumes "reserve_free_port w = (Inr p, w')"
  shows "p \<notin> set (bound_ports w)"
    and "w' = w\<lparr>bound_ports := p # bound_ports w, port_log := port_log w @ [Reserved p]\<rparr>"
  using assms
  by (auto simp add: reserve_free_port_def find_Some_iff split: option.splits)

lemma enter_reserve_free_port_Inr:
  assumes "enter_reserve_free_port w = (Inr p, w')"
  shows "p \<notin> set (bound_ports w)"
    and "w' = w\<lparr>bound_ports := p # bound_ports w, port_log := port_log w @ [Reserved p],
                port_stack := p # port_stack w\<rparr>"
  using assms reserve_free_port_Inr [of w p]
  by (auto simp add: enter_reserve_free_port_def split: prod.splits sum.splits)

lemma windows_runner_step_Inr:
  assumes "windows_runner_step sys c r st w = (Inr st', w')"
  shows "\<exists>q. q \<notin> set (bound_ports w)
           \<and> w' = w\<lparr>bound_ports := q # bound_ports w, port_log := port_log w @ [Reserved q],
                     port_stack := q # port_stack w\<rparr>
           \<and> watchers st' = watchers st @ [windows_runner_watcher sys c r]
           \<and> runner_bind_map st' = AList.update (runner_name r)
                (''tcp://'' @ ''127.0.0.1'' @ '':'' @ str_nat q) (runner_bind_map st)
           \<and> circus_socket_map st' = AList.update (runner_name r) (windows_socket c r q)
                (circus_socket_map st)"
proof -
  from assms obtain q w1 where
    e: "enter_reserve_free_port w = (Inr q, w1)"
    by (auto simp add: windows_runner_step_def split: prod.splits sum.splits)
  with assms enter_reserve_free_port_Inr [OF e] show ?thesis
    by (auto simp add: windows_runner_step_def windows_socket_def)
qed

lemma update_fresh: "k \<notin> fst ` set al \<Longrightarrow> AList.update k v al = al @ [(k, v)]"
  by (induction al) auto

lemma windows_runner_loop_Inr:
  assumes "windows_runner_loop sys c rs st w = (Inr st', w')"
  shows "\<exists>ps. length ps = length rs \<and> distinct ps \<and> set ps \<inter> set (bound_ports w) = {}
           \<and> w' = w\<lparr>bound_ports := rev ps @ bound_ports w,
                     port_log := port_log w @ map Reserved ps,
                     port_stack := rev ps @ port_stack w\<rparr>
           \<and> watchers st' = watchers st @ map (windows_runner_watcher sys c) rs
           \<and> map fst (runner_bind_map st')
               = dict_keys (map runner_name rs) (map fst (runner_bind_map st))
           \<and> map fst (circus_socket_map st')
               = dict_keys (map runner_name rs) (map fst (circus_socket_map st))
           \<and> (names_match (circus_socket_map st) \<longrightarrow> names_match (circus_socket_map st'))
           \<and> (\<forall>e \<in> set (circus_socket_map st').
                 e \<in> set (circus_socket_map st) \<or> loopback_on ps (snd e))
           \<and> (distinct (map runner_name rs)
                \<and> set (map runner_name rs) \<inter> fst ` set (circus_socket_map st) = {}
               \<longrightarrow> circus_socket_map st'
                   = circus_socket_map st @ map (\<lambda>(r, q). (runner_name r, windows_socket c r q)) (zip rs ps))"
  using assms
proof (induction rs arbitrary: st w)
  case Nil
  then show ?case by simp
next
  case (Cons r rs)
  from Cons.prems obtain st1 w1 where
    step: "windows_runner_step sys c r st w = (Inr st1, w1)"
    and rest: "windows_runner_loop sys c rs st1 w1 = (Inr st', w')"
    by (auto split: prod.splits sum.splits)
  from windows_runner_step_Inr [OF step] obtain q where
    q: "q \<notin> set (bound_ports w)"
    and w1: "w1 = w\<lparr>bound_ports := q # bound_ports w, port_log := port_log w @ [Reserved q],
                     port_stack := q # port_stack w\<rparr>"
    and ws1: "watchers st1 = watchers st @ [windows_runner_watcher sys c r]"
    and rb1: "runner_bind_map st1 = AList.update (runner_name r)
                (''tcp://'' @ ''127.0.0.1'' @ '':'' @ str_nat q) (runner_bind_map st)"
    and cs1: "circus_socket_map st1 = AList.update (runner_name r) (windows_socket c r q)
                (circus_socket_map st)"
    by blast
  from Cons.IH [OF rest] obtain ps where
    len: "length ps = length rs" and dist: "distinct ps"
    and disj: "set ps \<inter> set (bound_ports w1) = {}"
    and w': "w' = w1\<lparr>bound_ports := rev ps @ bound_ports w1,
                      port_log := port_log w1 @ map Reserved ps,
                      port_stack := rev ps @ port_stack w1\<rparr>"
    and ws: "watchers st' = watchers st1 @ map (windows_runner_watcher sys c) rs"
    and rb: "map fst (runner_bind_map st')
               = dict_keys (map runner_name rs) (map fst (runner_bind_map st1))"
    and cs: "map fst (circus_socket_map st')
               = dict_keys (map runner_name rs) (map fst (circus_socket_map st1))"
    and nm: "names_match (circus_socket_map st1) \<longrightarrow> names_match (circus_socket_map st')"
    and lb: "\<forall>e \<in> set (circus_socket_map st').
                 e \<in> set (circus_socket_map st1) \<or> loopback_on ps (snd e)"
    and ex: "distinct (map runner_name rs)
                \<and> set (map runner_name rs) \<inter> fst ` set (circus_socket_map st1) = {}
               \<longrightarrow> circus_socket_map st'
                   = circus_socket_map st1 @ map (\<lambda>(r, q). (runner_name r, windows_socket c r q)) (zip rs ps)"
    by blast
  let ?ps = "q # ps"
  have a: "length ?ps = length (r # rs)" using len by simp
  have b: "distinct ?ps" using dist disj w1 by auto
  have c': "set ?ps \<inter> set (bound_ports w) = {}" using disj q w1 by auto
  have d: "w' = w\<lparr>bound_ports := rev ?ps @ bound_ports w,
                     port_log := port_log w @ map Reserved ?ps,
                     port_stack := rev ?ps @ port_stack w\<rparr>"
    using w' w1 by simp
  have e: "watchers st' = watchers st @ map (windows_runner_watcher sys c) (r # rs)"
    using ws ws1 by simp
  have f: "map fst (runner_bind_map st')
               = dict_keys (map runner_name (r # rs)) (map fst (runner_bind_map st))"
    using rb rb1 by (simp add: update_keys_add_key)
  have g: "map fst (circus_socket_map st')
               = dict_keys (map runner_name (r # rs)) (map fst (circus_socket_map st))"
    using cs cs1 by (simp add: update_keys_add_key)
  have h: "names_match (circus_socket_map st) \<longrightarrow> names_match (circus_socket_map st')"
    using nm cs1 names_match_update [of "circus_socket_map st" "windows_socket c r q" "runner_name r"]
    by (simp add: windows_socket_def)
  have i: "\<forall>e \<in> set (circus_socket_map st').
                 e \<in> set (circus_socket_map st) \<or> loopback_on ?ps (snd e)"
  proof
    fix e assume "e \<in> set (circus_socket_map st')"
    with lb have "e \<in> set (circus_socket_map st1) \<or> loopback_on ps (snd e)" by blast
    then show "e \<in> set (circus_socket_map st) \<or> loopback_on ?ps (snd e)"
    proof
      assume "e \<in> set (circus_socket_map st1)"
      with cs1 set_update_subset [of "runner_name r" "windows_socket c r q" "circus_socket_map st"]
      have "e = (runner_name r, windows_socket c r q) \<or> e \<in> set (circus_socket_map st)" by auto
      then show ?thesis by (auto simp add: loopback_on_def windows_socket_def)
    next
      assume "loopback_on ps (snd e)"
      then show ?thesis by (auto simp add: loopback_on_def list_ex_iff)
    qed
  qed
  have j: "distinct (map runner_name (r # rs))
                \<and> set (map runner_name (r # rs)) \<inter> fst ` set (circus_socket_map st) = {}
               \<longrightarrow> circus_socket_map st'
                   = circus_socket_map st @ map (\<lambda>(r, q). (runner_name r, windows_socket c r q)) (zip (r # rs) ?ps)"
  proof
    assume asm: "distinct (map runner_name (r # rs))
                \<and> set (map runner_name (r # rs)) \<inter> fst ` set (circus_socket_map st) = {}"
    then have fresh: "runner_name r \<notin> fst ` set (circus_socket_map st)" by auto
    then have cs1': "circus_socket_map st1
        = circus_socket_map st @ [(runner_name r, windows_socket c r q)]"
      using cs1 by (simp add: update_fresh)
    have "set (map runner_name rs) \<inter> fst ` set (circus_socket_map st1) = {}"
      using asm cs1' by auto
    with ex asm have "circus_socket_map st'
                   = circus_socket_map st1 @ map (\<lambda>(r, q). (runner_name r, windows_socket c r q)) (zip rs ps)"
      by simp
    with cs1' show "circus_socket_map st'
                   = circus_socket_map st @ map (\<lambda>(r, q). (runner_name r, windows_socket c r q)) (zip (r # rs) ?ps)"
      by simp
  qed
  from a b c' d e f g h i j show ?case by blast
qed

lemma fold_release_port:
  "bound_ports w = qs @ B \<Longrightarrow>
   fold release_port qs w = w\<lparr>bound_ports := B, port_log := port_log w @ map Released qs\<rparr>"
proof (induction qs arbitrary: w)
  case Nil
  then show ?case by simp
next
  case (Cons q qs)
  have "bound_ports (release_port q w) = qs @ B"
    using Cons.prems by (simp add: release_port_def)
  from Cons.IH [OF this] show ?case
    by (simp add: release_port_def)
qed

section \<open>File-system operations: frame and well-formedness\<close>

lemma frame_refl [simp]: "frame w w"
  by (simp add: frame_def)

lemma frame_trans: "frame w w1 \<Longrightarrow> frame w1 w2 \<Longrightarrow> frame w w2"
  by (simp add: frame_def)

lemma strict_prefix_take: "strict_prefix p q \<longleftrightarrow> (\<exists>n < length q. p = take n q)"
proof
  assume "strict_prefix p q"
  then obtain z zs where "q = p @ z # zs" by (rule strict_prefixE')
  then have "length p < length q \<and> p = take (length p) q" by simp
  then show "\<exists>n < length q. p = take n q" by blast
next
  assume "\<exists>n < length q. p = take n q"
  then obtain n where n: "n < length q" and p: "p = take n q" by blast
  have "prefix p q" unfolding p by (rule take_is_prefix)
  moreover from n p have "length p < length q" by simp
  then have "p \<noteq> q" by auto
  ultimately show "strict_prefix p q" by (simp add: strict_prefix_def)
qed

lemma wf_fs_iff:
  "wf_fs w \<longleftrightarrow> (\<forall>q \<in> fst ` set (fs w). \<forall>p. strict_prefix p q \<longrightarrow> is_dir w p)"
proof -
  have "wf_fs w \<longleftrightarrow> (\<forall>q \<in> fst ` set (fs w). \<forall>n < length q. is_dir w (take n q))"
    by (auto simp add: wf_fs_def list_all_iff)
  also have "\<dots> \<longleftrightarrow> (\<forall>q \<in> fst ` set (fs w). \<forall>p. strict_prefix p q \<longrightarrow> is_dir w p)"
    unfolding strict_prefix_take by blast
  finally show ?thesis .
qed

lemma path_exists_iff: "path_exists w p \<longleftrightarrow> p \<in> fst ` set (fs w)"
  by (simp add: path_exists_def lookup_node_def map_of_eq_None_iff)

lemma is_dir_exists: "is_dir w p \<Longrightarrow> path_exists w p"
  by (simp add: is_dir_def path_exists_def)

lemma has_entries_iff: "has_entries w p \<longleftrightarrow> (\<exists>q \<in> fst ` set (fs w). strict_prefix p q)"
  by (auto simp add: has_entries_def list_ex_iff)

lemma missing_has_no_entries: "wf_fs w \<Longrightarrow> \<not> path_exists w p \<Longrightarrow> \<not> has_entries w p"
  by (auto simp add: wf_fs_iff has_entries_iff dest: is_dir_exists)

lemma map_of_filter_fst:
  "map_of (filter (\<lambda>e. P (fst e)) xs) k = (if P k then map_of xs k else None)"
  by (induction xs) auto

lemma map_of_snoc:
  "map_of (xs @ [(p, v)]) k = (case map_of xs k of Some y \<Rightarrow> Some y | None \<Rightarrow> if k = p then Some v else None)"
  by (induction xs) auto

subsection \<open>The order of removal\<close>

lemma removal_order_last: "\<exists>xs. removal_order es p = xs @ [p]"
  by (subst removal_order.simps) simp

lemma removal_order_self: "p \<in> set (removal_order es p)"
  using removal_order_last [of es p] by auto

lemma removal_order_below:
  "q \<in> set (removal_order es p) \<Longrightarrow> prefix p q \<and> (q = p \<or> q \<in> fst ` set es)"
proof (induction es p arbitrary: q rule: removal_order.induct)
  case (1 es p)
  show ?case
  proof (cases "map_of es p = Some Dir")
    case False
    with "1.prems" show ?thesis by (simp add: removal_order.simps [of es p])
  next
    case True
    with "1.prems" consider "q = p"
      | c where "c \<in> set (scandir es p)" "q \<in> set (removal_order es c)"
      by (auto simp add: removal_order.simps [of es p])
    then show ?thesis
    proof cases
      case 1
      then show ?thesis by simp
    next
      case (2 c)
      from "1.IH" [OF True 2] have "prefix c q" and "q = c \<or> q \<in> fst ` set es" by simp_all
      moreover from scandir_strict_prefix [OF 2(1)] have "prefix p c" and "c \<in> fst ` set es"
        by (simp_all add: strict_prefix_def)
      ultimately show ?thesis by (auto intro: prefix_order.trans)
    qed
  qed
qed

lemma child_on_the_way:
  assumes "strict_prefix p r"
  shows "take (Suc (length p)) r \<noteq> [] \<and> butlast (take (Suc (length p)) r) = p
         \<and> prefix (take (Suc (length p)) r) r"
proof -
  from assms obtain z zs where r: "r = p @ z # zs" by (rule strict_prefixE')
  then have "take (Suc (length p)) r = p @ [z]" by simp
  then show ?thesis using r by (simp add: take_is_prefix)
qed

lemma removal_order_covers:
  "\<forall>k \<in> fst ` set es. \<forall>a. strict_prefix a k \<longrightarrow> map_of es a = Some Dir
   \<Longrightarrow> r \<in> fst ` set es \<Longrightarrow> prefix p r \<Longrightarrow> r \<in> set (removal_order es p)"
proof (induction es p rule: removal_order.induct)
  case (1 es p)
  note wf = "1.prems"(1) and rkey = "1.prems"(2) and pr = "1.prems"(3)
  show ?case
  proof (cases "r = p")
    case True
    then show ?thesis by (simp add: removal_order_self)
  next
    case False
    with pr have sp: "strict_prefix p r" by (simp add: strict_prefix_def)
    with wf rkey have dir: "map_of es p = Some Dir" by blast
    let ?c = "take (Suc (length p)) r"
    note c = child_on_the_way [OF sp]
    have ckey: "?c \<in> fst ` set es"
    proof (cases "?c = r")
      case True
      with rkey show ?thesis by simp
    next
      case False
      with c have "strict_prefix ?c r" by (simp add: strict_prefix_def)
      with wf rkey have "map_of es ?c = Some Dir" by blast
      then have "(?c, Dir) \<in> set es" by (rule map_of_SomeD)
      then show ?thesis by force
    qed
    with c have cin: "?c \<in> set (scandir es p)" by (simp add: scandir_def)
    from c have "prefix ?c r" by simp
    from "1.IH" [OF dir cin wf rkey this] cin dir show ?thesis
      by (auto simp add: removal_order.simps [of es p])
  qed
qed

lemma takeWhile_concat_closed:
  assumes part: "\<And>c q r. c \<in> set cs \<Longrightarrow> q \<in> set (takeWhile P (f c)) \<Longrightarrow> R q r
                   \<Longrightarrow> r \<in> set (takeWhile P (f c))"
    and full: "\<And>c q r. c \<in> set cs \<Longrightarrow> q \<in> set (f c) \<Longrightarrow> R q r \<Longrightarrow> r \<in> set (f c)"
  shows "q \<in> set (takeWhile P (concat (map f cs))) \<Longrightarrow> R q r
         \<Longrightarrow> r \<in> set (takeWhile P (concat (map f cs)))"
  using part full
proof (induction cs)
  case Nil
  then show ?case by simp
next
  case (Cons c cs)
  show ?case
  proof (cases "\<forall>x \<in> set (f c). P x")
    case False
    then obtain x where "x \<in> set (f c)" "\<not> P x" by blast
    then have "takeWhile P (concat (map f (c # cs))) = takeWhile P (f c)"
      by (simp add: takeWhile_append1)
    with Cons.prems(1,2) Cons.prems(3) [of c q r] show ?thesis by simp
  next
    case True
    then have eq: "takeWhile P (concat (map f (c # cs)))
        = f c @ takeWhile P (concat (map f cs))"
      by (simp add: takeWhile_append)
    with Cons.prems(1) consider "q \<in> set (f c)" | "q \<in> set (takeWhile P (concat (map f cs)))"
      by auto
    then show ?thesis
    proof cases
      case 1
      with Cons.prems(2) Cons.prems(4) [of c q r] eq show ?thesis by simp
    next
      case 2
      have "r \<in> set (takeWhile P (concat (map f cs)))"
      proof (rule Cons.IH [OF 2 Cons.prems(2)])
        show "r \<in> set (takeWhile P (f c))" if "c \<in> set cs" "q \<in> set (takeWhile P (f c))" "R q r"
          for c q r using Cons.prems(3) [of c q r] that by simp
        show "r \<in> set (f c)" if "c \<in> set cs" "q \<in> set (f c)" "R q r"
          for c q r using Cons.prems(4) [of c q r] that by simp
      qed
      with eq show ?thesis by simp
    qed
  qed
qed

lemma removal_order_full_closed:
  assumes "\<forall>k \<in> fst ` set es. \<forall>a. strict_prefix a k \<longrightarrow> map_of es a = Some Dir"
    and "q \<in> set (removal_order es p)" and "r \<in> fst ` set es" and "strict_prefix q r"
  shows "r \<in> set (removal_order es p)"
proof -
  from removal_order_below [OF assms(2)] have "prefix p q" by simp
  with assms(4) have "prefix p r" by (meson prefix_order.trans prefix_order.less_imp_le)
  with assms(1,3) show ?thesis by (rule removal_order_covers)
qed

lemma removed_closed:
  "\<forall>k \<in> fst ` set es. \<forall>a. strict_prefix a k \<longrightarrow> map_of es a = Some Dir
   \<Longrightarrow> q \<in> set (takeWhile P (removal_order es p)) \<Longrightarrow> r \<in> fst ` set es \<Longrightarrow> strict_prefix q r
   \<Longrightarrow> r \<in> set (takeWhile P (removal_order es p))"
proof (induction es p arbitrary: q r rule: removal_order.induct)
  case (1 es p)
  note wf = "1.prems"(1) and qin = "1.prems"(2) and rkey = "1.prems"(3) and qr = "1.prems"(4)
  let ?xs = "concat (map (removal_order es) (scandir es p))"
  from qin have qo: "q \<in> set (removal_order es p)" by (rule set_takeWhileD [THEN conjunct1])
  have ro: "r \<in> set (removal_order es p)"
    using wf qo rkey qr by (rule removal_order_full_closed)
  from removal_order_below [OF qo] qr have "strict_prefix p r"
    by (meson prefix_order.le_less_trans)
  with wf rkey have dir: "map_of es p = Some Dir" and rp: "r \<noteq> p" by auto
  have ord: "removal_order es p = ?xs @ [p]"
    using dir by (simp add: removal_order.simps [of es p])
  show ?case
  proof (cases "\<forall>x \<in> set ?xs. P x")
    case True
    with ro rp show ?thesis by (auto simp add: ord takeWhile_append)
  next
    case False
    then obtain x where "x \<in> set ?xs" "\<not> P x" by blast
    then have "takeWhile P (?xs @ [p]) = takeWhile P ?xs" by (rule takeWhile_append1)
    then have tw: "takeWhile P (removal_order es p) = takeWhile P ?xs"
      by (simp only: ord)
    have "r \<in> set (takeWhile P ?xs)"
    proof (rule takeWhile_concat_closed
        [where R = "\<lambda>q r. r \<in> fst ` set es \<and> strict_prefix q r" and q = q])
      show "q \<in> set (takeWhile P ?xs)" using qin tw by simp
      show "r \<in> fst ` set es \<and> strict_prefix q r" using rkey qr by simp
      show "r \<in> set (takeWhile P (removal_order es c))"
        if "c \<in> set (scandir es p)" "q \<in> set (takeWhile P (removal_order es c))"
          "r \<in> fst ` set es \<and> strict_prefix q r" for c q r
        using "1.IH" [OF dir that(1) wf that(2)] that(3) by simp
      show "r \<in> set (removal_order es c)"
        if "c \<in> set (scandir es p)" "q \<in> set (removal_order es c)"
          "r \<in> fst ` set es \<and> strict_prefix q r" for c q r
        using removal_order_full_closed [OF wf that(2)] that(3) by simp
    qed
    with tw show ?thesis by simp
  qed
qed

subsection \<open>Removal of a directory tree\<close>

lemma wf_fs_map_of:
  "wf_fs w \<longleftrightarrow>
     (\<forall>k \<in> fst ` set (fs w). \<forall>a. strict_prefix a k \<longrightarrow> map_of (fs w) a = Some Dir)"
  by (simp add: wf_fs_iff is_dir_def lookup_node_def)

lemma rmtree_cases:
  assumes "rmtree p w = (r, w')"
  obtains (not_a_directory) e where "\<not> is_dir w p" "r = Inl e" "is_OSError e" "w' = w"
    | (traversed) "is_dir w p"
        "w' = w\<lparr>fs := filter (\<lambda>e. fst e \<notin> set (takeWhile (removable w) (removal_order (fs w) p)))
                          (fs w)\<rparr>"
        "r = (if takeWhile (removable w) (removal_order (fs w) p) = removal_order (fs w) p
              then Inr () else Inl (OSError PermissionError))"
proof (cases "lookup_node w p")
  case None
  with assms have "\<not> is_dir w p" "r = Inl (OSError FileNotFoundError)" "w' = w"
    by (simp_all add: rmtree_def is_dir_def)
  then show ?thesis using not_a_directory by (simp add: is_OSError_def)
next
  case (Some k)
  show ?thesis
  proof (cases k)
    case File
    with Some assms have "\<not> is_dir w p" "r = Inl (OSError NotADirectoryError)" "w' = w"
      by (simp_all add: rmtree_def is_dir_def)
    then show ?thesis using not_a_directory by (simp add: is_OSError_def)
  next
    case Dir
    with Some have "is_dir w p" by (simp add: is_dir_def)
    moreover from Some Dir assms
    have "w' = w\<lparr>fs := filter (\<lambda>e. fst e \<notin> set (takeWhile (removable w) (removal_order (fs w) p)))
                          (fs w)\<rparr>"
      and "r = (if takeWhile (removable w) (removal_order (fs w) p) = removal_order (fs w) p
              then Inr () else Inl (OSError PermissionError))"
      by (auto simp add: rmtree_def Let_def split: if_splits)
    ultimately show ?thesis by (rule traversed)
  qed
qed

lemma rmtree_Inl: "rmtree p w = (Inl e, w') \<Longrightarrow> is_OSError e"
  by (erule rmtree_cases) (auto simp add: is_OSError_def split: if_splits)

lemma rmtree_frame: "rmtree p w = (r, w') \<Longrightarrow> frame w w'"
  by (erule rmtree_cases) (simp_all add: frame_def)

lemma rmtree_keeps:
  "rmtree p w = (r, w') \<Longrightarrow>
     warnings w' = warnings w \<and> tmp_names w' = tmp_names w
     \<and> prometheus_multiproc_dir w' = prometheus_multiproc_dir w"
  by (erule rmtree_cases) simp_all

lemma lookup_after_removal:
  "lookup_node (w\<lparr>fs := filter (\<lambda>e. fst e \<notin> S) (fs w)\<rparr>) q
     = (if q \<in> S then None else lookup_node w q)"
  by (simp add: lookup_node_def map_of_filter_fst [where P = "\<lambda>k. k \<notin> S"])

lemma wf_after_removal:
  assumes "wf_fs w"
    and closed: "\<And>q k. q \<in> S \<Longrightarrow> k \<in> fst ` set (fs w) \<Longrightarrow> strict_prefix q k \<Longrightarrow> k \<in> S"
  shows "wf_fs (w\<lparr>fs := filter (\<lambda>e. fst e \<notin> S) (fs w)\<rparr>)"
proof -
  let ?w = "w\<lparr>fs := filter (\<lambda>e. fst e \<notin> S) (fs w)\<rparr>"
  have "is_dir ?w a" if q: "q \<in> fst ` set (fs ?w)" and a: "strict_prefix a q" for q a
  proof -
    from q have qin: "q \<in> fst ` set (fs w)" and np: "q \<notin> S" by auto
    from assms(1) qin a have "is_dir w a" by (auto simp add: wf_fs_iff)
    moreover from np qin a closed have "a \<notin> S" by blast
    ultimately show ?thesis by (simp add: is_dir_def lookup_after_removal)
  qed
  then show ?thesis by (simp add: wf_fs_iff del: set_filter)
qed

lemma rmtree_wf:
  assumes "rmtree p w = (r, w')" and "wf_fs w"
  shows "wf_fs w'"
  using assms(1)
proof (cases rule: rmtree_cases)
  case (not_a_directory e)
  with assms(2) show ?thesis by simp
next
  case traversed
  have "wf_fs (w\<lparr>fs := filter (\<lambda>e. fst e \<notin> set (takeWhile (removable w) (removal_order (fs w) p)))
                          (fs w)\<rparr>)"
    using assms(2)
  proof (rule wf_after_removal)
    show "k \<in> set (takeWhile (removable w) (removal_order (fs w) p))"
      if "q \<in> set (takeWhile (removable w) (removal_order (fs w) p))"
        "k \<in> fst ` set (fs w)" "strict_prefix q k" for q k
      using assms(2) that unfolding wf_fs_map_of by (rule removed_closed)
  qed
  with traversed(2) show ?thesis by simp
qed

lemma removal_order_set:
  assumes "wf_fs w" and "is_dir w p"
  shows "set (removal_order (fs w) p) = {k \<in> fst ` set (fs w). prefix p k}"
proof -
  have pk: "p \<in> fst ` set (fs w)" using assms(2) is_dir_exists path_exists_iff by blast
  have "q \<in> fst ` set (fs w) \<and> prefix p q" if "q \<in> set (removal_order (fs w) p)" for q
    using removal_order_below [OF that] pk by auto
  moreover have "q \<in> set (removal_order (fs w) p)" if "q \<in> fst ` set (fs w)" "prefix p q" for q
    using assms(1) that unfolding wf_fs_map_of by (rule removal_order_covers)
  ultimately show ?thesis by blast
qed

lemma remove_all_below:
  assumes "wf_fs w" and "is_dir w p"
  shows "filter (\<lambda>e. fst e \<notin> set (removal_order (fs w) p)) (fs w)
           = filter (\<lambda>e. \<not> prefix p (fst e)) (fs w)"
  by (rule filter_cong) (auto simp add: removal_order_set [OF assms])

lemma rmtree_Inr:
  assumes "rmtree p w = (Inr u, w')" and "wf_fs w"
  shows "w' = w\<lparr>fs := filter (\<lambda>e. \<not> prefix p (fst e)) (fs w)\<rparr>"
    and "is_dir w p"
proof -
  from assms(1) have "is_dir w p \<and> w' = w\<lparr>fs := filter (\<lambda>e. fst e \<notin> set (removal_order (fs w) p)) (fs w)\<rparr>"
  proof (cases rule: rmtree_cases)
    case (not_a_directory e)
    then show ?thesis by simp
  next
    case traversed
    show ?thesis
    proof (cases "takeWhile (removable w) (removal_order (fs w) p) = removal_order (fs w) p")
      case True
      from traversed(2) have "w' = w\<lparr>fs := filter (\<lambda>e. fst e \<notin> set (removal_order (fs w) p)) (fs w)\<rparr>"
        unfolding True .
      with traversed(1) show ?thesis by simp
    next
      case False
      with traversed(3) show ?thesis by (simp del: takeWhile_eq_all_conv)
    qed
  qed
  then show "is_dir w p" and "w' = w\<lparr>fs := filter (\<lambda>e. \<not> prefix p (fst e)) (fs w)\<rparr>"
    using remove_all_below [OF assms(2)] by simp_all
qed



subsection \<open>Creation of directories\<close>

lemma os_mkdir_Inl: "os_mkdir p w = (Inl e, w') \<Longrightarrow> w' = w \<and> is_OSError e"
  by (auto simp add: os_mkdir_def is_OSError_def split: option.splits node.splits if_splits)

lemma os_mkdir_Inr:
  assumes "os_mkdir p w = (Inr u, w')"
  shows "w' = w\<lparr>fs := fs w @ [(p, Dir)]\<rparr>"
    and "\<not> path_exists w p"
    and "p \<noteq> []"
    and "is_dir w (butlast p)"
    and "p \<notin> set (denied w)"
  using assms
  by (auto simp add: os_mkdir_def is_dir_def split: option.splits node.splits if_splits)


lemma lookup_after_add:
  "lookup_node (w\<lparr>fs := fs w @ [(p, Dir)]\<rparr>) q
     = (case lookup_node w q of Some y \<Rightarrow> Some y | None \<Rightarrow> if q = p then Some Dir else None)"
  by (simp add: lookup_node_def map_of_snoc del: map_of_append)

lemma is_dir_after_add:
  "\<not> path_exists w p \<Longrightarrow> is_dir (w\<lparr>fs := fs w @ [(p, Dir)]\<rparr>) p"
  by (simp add: is_dir_def lookup_after_add path_exists_def)

lemma is_dir_mono_add:
  "is_dir w q \<Longrightarrow> is_dir (w\<lparr>fs := fs w @ [(p, Dir)]\<rparr>) q"
  by (simp add: is_dir_def lookup_after_add)


lemma strict_prefix_butlast:
  "strict_prefix a p \<Longrightarrow> a = butlast p \<or> strict_prefix a (butlast p)"
  by (metis append_butlast_last_id prefix_order.less_le prefix_snoc strict_prefix_simps(1) prefix_order.dual_order.strict_iff_order)

lemma wf_after_add:
  assumes "wf_fs w" and "is_dir w (butlast p)" and "p \<noteq> []"
  shows "wf_fs (w\<lparr>fs := fs w @ [(p, Dir)]\<rparr>)"
proof -
  let ?w = "w\<lparr>fs := fs w @ [(p, Dir)]\<rparr>"
  have anc: "is_dir w a" if "strict_prefix a p" for a
  proof -
    from that strict_prefix_butlast have "a = butlast p \<or> strict_prefix a (butlast p)" by blast
    moreover have "butlast p \<in> fst ` set (fs w)"
      using assms(2) is_dir_exists path_exists_iff by blast
    ultimately show ?thesis using assms(1,2) by (auto simp add: wf_fs_iff)
  qed
  have "is_dir ?w a" if q: "q \<in> fst ` set (fs ?w)" and a: "strict_prefix a q" for q a
  proof -
    from q have "q \<in> fst ` set (fs w) \<or> q = p" by auto
    then have "is_dir w a"
    proof
      assume "q \<in> fst ` set (fs w)"
      with assms(1) a show ?thesis by (auto simp add: wf_fs_iff)
    next
      assume "q = p"
      with a anc show ?thesis by simp
    qed
    then show ?thesis by (rule is_dir_mono_add)
  qed
  then show ?thesis unfolding wf_fs_iff by blast
qed

lemma os_mkdir_frame: "os_mkdir p w = (r, w') \<Longrightarrow> frame w w'"
  by (auto simp add: os_mkdir_def frame_def split: option.splits node.splits if_splits)

lemma os_mkdir_wf:
  assumes "os_mkdir p w = (r, w')" and "wf_fs w"
  shows "wf_fs w'"
proof (cases r)
  case (Inl e)
  with assms os_mkdir_Inl show ?thesis by blast
next
  case (Inr u)
  with assms(1) have m: "os_mkdir p w = (Inr u, w')" by simp
  from os_mkdir_Inr(1,3,4) [OF m] wf_after_add [OF assms(2)] show ?thesis by simp
qed

lemma grows_below_refl [simp]: "grows_below p w w"
  by (simp add: grows_below_def)

lemma grows_belowD:
  assumes "grows_below p w w'"
  shows "frame w w'" and "wf_fs w \<Longrightarrow> wf_fs w'" and "warnings w' = warnings w"
    and "tmp_names w' = tmp_names w"
    and "prometheus_multiproc_dir w' = prometheus_multiproc_dir w"
    and "fst ` set (fs w) \<subseteq> fst ` set (fs w')"
    and "fst ` set (fs w') \<subseteq> fst ` set (fs w) \<union> {q. prefix q p}"
  using assms by (simp_all add: grows_below_def)

lemma grows_belowI:
  assumes "frame w w'" and "wf_fs w \<Longrightarrow> wf_fs w'" and "warnings w' = warnings w"
    and "tmp_names w' = tmp_names w"
    and "prometheus_multiproc_dir w' = prometheus_multiproc_dir w"
    and "fst ` set (fs w) \<subseteq> fst ` set (fs w')"
    and "fst ` set (fs w') \<subseteq> fst ` set (fs w) \<union> {q. prefix q p}"
  shows "grows_below p w w'"
  using assms by (simp add: grows_below_def)

lemma grows_below_trans:
  assumes "grows_below p w w1" and "grows_below p w1 w2"
  shows "grows_below p w w2"
proof (rule grows_belowI)
  show "frame w w2"
    using grows_belowD(1) [OF assms(1)] grows_belowD(1) [OF assms(2)] by (rule frame_trans)
  show "wf_fs w2" if "wf_fs w"
    using that grows_belowD(2) [OF assms(1)] grows_belowD(2) [OF assms(2)] by blast
  show "warnings w2 = warnings w"
    using grows_belowD(3) [OF assms(1)] grows_belowD(3) [OF assms(2)] by simp
  show "tmp_names w2 = tmp_names w"
    using grows_belowD(4) [OF assms(1)] grows_belowD(4) [OF assms(2)] by simp
  show "prometheus_multiproc_dir w2 = prometheus_multiproc_dir w"
    using grows_belowD(5) [OF assms(1)] grows_belowD(5) [OF assms(2)] by simp
  show "fst ` set (fs w) \<subseteq> fst ` set (fs w2)"
    using grows_belowD(6) [OF assms(1)] grows_belowD(6) [OF assms(2)] by (rule subset_trans)
  show "fst ` set (fs w2) \<subseteq> fst ` set (fs w) \<union> {q. prefix q p}"
    using grows_belowD(7) [OF assms(1)] grows_belowD(7) [OF assms(2)] by blast
qed

lemma grows_below_mono:
  assumes "grows_below q w w'" and "prefix q p"
  shows "grows_below p w w'"
proof (rule grows_belowI)
  have "{a. prefix a q} \<subseteq> {a. prefix a p}"
    using assms(2) prefix_order.trans by blast
  with grows_belowD(7) [OF assms(1)]
  show "fst ` set (fs w') \<subseteq> fst ` set (fs w) \<union> {a. prefix a p}" by blast
qed (use grows_belowD [OF assms(1)] in simp_all)

lemma grows_below_no_new_entries:
  assumes "grows_below p w w'" and "has_entries w' p"
  shows "has_entries w p"
proof -
  from assms(2) obtain q where q: "q \<in> fst ` set (fs w')" and sp: "strict_prefix p q"
    unfolding has_entries_iff by blast
  from sp have "\<not> prefix q p"
    using prefix_order.less_le_not_le by blast
  moreover from q grows_belowD(7) [OF assms(1)] have "q \<in> fst ` set (fs w) \<or> prefix q p"
    by blast
  ultimately have "q \<in> fst ` set (fs w)" by blast
  with sp show ?thesis unfolding has_entries_iff by blast
qed

lemma os_mkdir_grows:
  assumes "os_mkdir p w = (r, w')"
  shows "grows_below p w w'"
proof (cases r)
  case (Inl e)
  with assms os_mkdir_Inl have "w' = w" by blast
  then show ?thesis by simp
next
  case (Inr u)
  with assms have "w' = w\<lparr>fs := fs w @ [(p, Dir)]\<rparr>" using os_mkdir_Inr(1) by blast
  moreover have "frame w w'" using assms by (rule os_mkdir_frame)
  moreover have "wf_fs w \<longrightarrow> wf_fs w'" using assms os_mkdir_wf by blast
  ultimately show ?thesis by (auto simp add: grows_below_def)
qed

lemma os_mkdir_is_dir: "os_mkdir p w = (Inr u, w') \<Longrightarrow> is_dir w' p"
  using os_mkdir_Inr(1,2) [of p w u w'] by (simp add: is_dir_after_add)

lemma mkdir_once_cases:
  assumes "mkdir_once eo p w = (r, w')"
  obtains (made) u where "os_mkdir p w = (Inr u, w')" "r = Inr u"
    | (failed) e where "os_mkdir p w = (Inl e, w)" "w' = w" "r = Inl e" "is_OSError e"
    | (present) e where "os_mkdir p w = (Inl e, w)" "w' = w" "r = Inr ()" "eo" "is_dir w p"
proof (cases "os_mkdir p w")
  case (Pair r1 w1)
  show ?thesis
  proof (cases r1)
    case (Inr u)
    with Pair assms have "os_mkdir p w = (Inr u, w')" "r = Inr u"
      by (simp_all add: mkdir_once_def)
    then show ?thesis by (rule made)
  next
    case (Inl e)
    with Pair os_mkdir_Inl have w1: "w1 = w" and ose: "is_OSError e" by blast+
    from Pair Inl w1 have m: "os_mkdir p w = (Inl e, w)" by simp
    from assms m have eq: "(r, w') =
      (if e = OSError FileNotFoundError then (Inl e, w)
       else if eo \<and> is_dir w p then (Inr (), w) else (Inl e, w))"
      by (simp add: mkdir_once_def)
    show ?thesis
    proof (cases "e \<noteq> OSError FileNotFoundError \<and> eo \<and> is_dir w p")
      case True
      with eq have "w' = w" "r = Inr ()" "eo" "is_dir w p" by simp_all
      with m show ?thesis by (rule present)
    next
      case False
      with eq have "w' = w" "r = Inl e" by (auto split: if_splits)
      with m show ?thesis using ose by (rule failed)
    qed
  qed
qed

lemma mkdir_once_grows: "mkdir_once eo p w = (r, w') \<Longrightarrow> grows_below p w w'"
  by (erule mkdir_once_cases) (auto dest: os_mkdir_grows)

lemma mkdir_once_Inl: "mkdir_once eo p w = (Inl e, w') \<Longrightarrow> is_OSError e \<and> w' = w"
  by (erule mkdir_once_cases) auto

lemma mkdir_once_is_dir: "mkdir_once eo p w = (Inr u, w') \<Longrightarrow> is_dir w' p"
  by (erule mkdir_once_cases) (auto dest: os_mkdir_is_dir)

lemma mkdir_once_False_Inr: "mkdir_once False p w = (Inr u, w') \<Longrightarrow> os_mkdir p w = (Inr u, w')"
  by (erule mkdir_once_cases) auto


lemma mkdir_parents_rev_props:
  "mkdir_parents_rev eo rp w = (r, w') \<Longrightarrow>
     grows_below (rev rp) w w'
     \<and> (\<forall>e. r = Inl e \<longrightarrow> is_OSError e)
     \<and> (\<forall>u. r = Inr u \<longrightarrow> is_dir w' (rev rp))"
proof (induction rp arbitrary: eo w r w')
  case Nil
  then have o: "mkdir_once eo [] w = (r, w')" by simp
  show ?case
    using mkdir_once_grows [OF o] mkdir_once_Inl [of eo "[]" w _ w']
      mkdir_once_is_dir [of eo "[]" w _ w'] o
    by auto
next
  case (Cons x rp)
  let ?p = "rev (x # rp)"
  obtain r1 w1 where m: "os_mkdir ?p w = (r1, w1)" by (cases "os_mkdir ?p w")
  have g1: "grows_below ?p w w1" using m by (rule os_mkdir_grows)
  show ?case
  proof (cases r1)
    case (Inr u)
    with m Cons.prems have ru: "r = Inr u" and ww: "w' = w1" by auto
    from m Inr have "is_dir w1 ?p" using os_mkdir_is_dir by blast
    with ru ww g1 show ?thesis by simp
  next
    case (Inl e1)
    with m os_mkdir_Inl have w1: "w1 = w" and ose: "is_OSError e1" by blast+
    show ?thesis
    proof (cases "e1 = OSError FileNotFoundError")
      case False
      with m Inl w1 Cons.prems
      have "(r, w') = (if eo \<and> is_dir w ?p then (Inr (), w) else (Inl e1, w))"
        by simp
      with ose show ?thesis by (auto split: if_splits)
    next
      case True
      obtain r2 w2 where p2: "mkdir_parents_rev True rp w = (r2, w2)"
        by (cases "mkdir_parents_rev True rp w")
      from Cons.IH [OF p2] have
        g2: "grows_below (rev rp) w w2"
        and e2: "\<forall>e. r2 = Inl e \<longrightarrow> is_OSError e" by auto
      have g2': "grows_below ?p w w2" using g2 by (rule grows_below_mono) simp
      show ?thesis
      proof (cases r2)
        case (Inl e)
        with m \<open>r1 = Inl e1\<close> True w1 p2 Cons.prems have "r = Inl e" "w' = w2" by auto
        with g2' e2 Inl show ?thesis by simp
      next
        case (Inr u)
        with m \<open>r1 = Inl e1\<close> True w1 p2 Cons.prems
        have o: "mkdir_once eo ?p w2 = (r, w')" by auto
        have g: "grows_below ?p w w'"
          using g2' mkdir_once_grows [OF o] by (rule grows_below_trans)
        show ?thesis
        proof (cases r)
          case (Inl e)
          with o mkdir_once_Inl have "is_OSError e" by blast
          with g Inl show ?thesis by simp
        next
          case (Inr u')
          with o mkdir_once_is_dir have "is_dir w' ?p" by blast
          with g Inr show ?thesis by simp
        qed
      qed
    qed
  qed
qed

lemma mkdir_props:
  assumes "mkdir wp eo p w = (r, w')"
  shows "grows_below p w w'"
    and "r = Inl e \<Longrightarrow> is_OSError e"
    and "r = Inr u \<Longrightarrow> is_dir w' p"
proof -
  have "grows_below p w w' \<and> (\<forall>e. r = Inl e \<longrightarrow> is_OSError e) \<and> (\<forall>u. r = Inr u \<longrightarrow> is_dir w' p)"
  proof (cases wp)
    case True
    with assms have "mkdir_parents_rev eo (rev p) w = (r, w')" by (simp add: mkdir_def)
    from mkdir_parents_rev_props [OF this] show ?thesis by simp
  next
    case False
    with assms have o: "mkdir_once eo p w = (r, w')" by (simp add: mkdir_def)
    show ?thesis
      using mkdir_once_grows [OF o] mkdir_once_Inl [of eo p w _ w'] mkdir_once_is_dir [of eo p w _ w'] o
      by auto
  qed
  then show "grows_below p w w'" and "r = Inl e \<Longrightarrow> is_OSError e" and "r = Inr u \<Longrightarrow> is_dir w' p"
    by blast+
qed

lemma dropWhile_Cons_not: "dropWhile P xs = y # ys \<Longrightarrow> \<not> P y \<and> y \<in> set xs"
  by (metis hd_dropWhile list.sel(1) list.distinct(1) set_dropWhileD list.set_intros(1))

lemma mkdtemp_spec:
  "case mkdtemp w of
     (Inl e, w') \<Rightarrow> w' = w \<and> is_OSError e
   | (Inr s, w') \<Rightarrow>
       is_dir w (tmpdir w)
       \<and> (\<exists>n rest. dropWhile (\<lambda>n. path_exists w (tmpdir w @ [n])) (tmp_names w) = n # rest
             \<and> tmpdir w @ [n] \<notin> set (denied w)
             \<and> s = str_path (tmpdir w @ [n])
             \<and> w' = w\<lparr>fs := fs w @ [(tmpdir w @ [n], Dir)], tmp_names := rest\<rparr>)"
  by (simp add: mkdtemp_def is_dir_def is_OSError_def split: option.split node.split list.split)

lemma mkdtemp_Inl: "mkdtemp w = (Inl e, w') \<Longrightarrow> w' = w \<and> is_OSError e"
  using mkdtemp_spec [of w] by simp

lemma mkdtemp_Inr:
  assumes "mkdtemp w = (Inr s, w')"
  shows "\<exists>n rest. s = str_path (tmpdir w @ [n]) \<and> n \<in> set (tmp_names w)
           \<and> \<not> path_exists w (tmpdir w @ [n])
           \<and> is_dir w (tmpdir w)
           \<and> tmpdir w @ [n] \<notin> set (denied w)
           \<and> w' = w\<lparr>fs := fs w @ [(tmpdir w @ [n], Dir)], tmp_names := rest\<rparr>"
proof -
  from mkdtemp_spec [of w] assms obtain n rest where
    d: "dropWhile (\<lambda>n. path_exists w (tmpdir w @ [n])) (tmp_names w) = n # rest"
    and rest: "is_dir w (tmpdir w)" "tmpdir w @ [n] \<notin> set (denied w)"
       "s = str_path (tmpdir w @ [n])"
       "w' = w\<lparr>fs := fs w @ [(tmpdir w @ [n], Dir)], tmp_names := rest\<rparr>"
    by auto
  from dropWhile_Cons_not [OF d] rest show ?thesis by blast
qed

lemma mkdtemp_frame: "mkdtemp w = (r, w') \<Longrightarrow> frame w w'"
proof (cases r)
  case (Inl e)
  assume "mkdtemp w = (r, w')"
  with Inl mkdtemp_Inl have "w' = w" by blast
  then show ?thesis by simp
next
  case (Inr s)
  assume "mkdtemp w = (r, w')"
  with Inr mkdtemp_Inr obtain n rest where
    "w' = w\<lparr>fs := fs w @ [(tmpdir w @ [n], Dir)], tmp_names := rest\<rparr>" by blast
  then show ?thesis by (simp add: frame_def)
qed



lemma path_exists_fs_cong: "fs w' = fs w \<Longrightarrow> path_exists w' p = path_exists w p"
  by (simp add: path_exists_def lookup_node_def)

lemma wf_fs_cong: "fs w' = fs w \<Longrightarrow> wf_fs w' = wf_fs w"
  by (simp add: wf_fs_def is_dir_def lookup_node_def)


section \<open>Metrics directory resolution: results\<close>

lemma fs_step_refl [simp]: "fs_step w w"
  by (simp add: fs_step_def)

lemma fs_step_trans:
  assumes "fs_step w w1" and "fs_step w1 w2"
  shows "fs_step w w2"
proof -
  from assms have "frame w w1" "frame w1 w2" by (simp_all add: fs_step_def)
  then have "frame w w2" by (rule frame_trans)
  with assms show ?thesis by (simp add: fs_step_def)
qed

lemma grows_below_fs_step: "grows_below p w w' \<Longrightarrow> fs_step w w'"
  by (simp add: grows_below_def fs_step_def)

lemma rmtree_fs_step:
  assumes "rmtree p w = (r, w')"
  shows "fs_step w w'"
proof -
  have "frame w w'" using assms by (rule rmtree_frame)
  moreover have "wf_fs w \<longrightarrow> wf_fs w'" using assms rmtree_wf by blast
  moreover have "warnings w' = warnings w \<and> tmp_names w' = tmp_names w
      \<and> prometheus_multiproc_dir w' = prometheus_multiproc_dir w"
    using assms by (rule rmtree_keeps)
  ultimately show ?thesis by (simp add: fs_step_def)
qed

lemma no_entries_after_rmtree:
  "\<not> has_entries (w\<lparr>fs := filter (\<lambda>e. \<not> prefix p (fst e)) (fs w)\<rparr>) p"
  by (auto simp add: has_entries_iff strict_prefix_def)

lemma absolute_frame: "frame w w' \<Longrightarrow> absolute w' p = absolute w p"
  by (simp add: absolute_def frame_def)


lemma ensure_try_cases:
  fixes d w
  defines "a \<equiv> absolute w (Path d)"
  assumes "ensure_prometheus_dir_try d True w = (r, w')"
  obtains (kept) "path_exists w a" "is_dir w a" "\<not> has_entries w a"
      "r = Inr (str_path a)" "w' = w"
    | (rm_failed) e where "path_exists w a" "\<not> is_dir w a \<or> has_entries w a"
      "rmtree a w = (Inl e, w')" "r = Inl e"
    | (cleaned) u w1 r2 where "path_exists w a" "\<not> is_dir w a \<or> has_entries w a"
      "rmtree a w = (Inr u, w1)" "mkdir False False a w1 = (r2, w')"
      "r = (case r2 of Inl e \<Rightarrow> Inl e | Inr u' \<Rightarrow> Inr (str_path a))"
    | (created) r1 where "\<not> path_exists w a" "mkdir True False a w = (r1, w')"
      "r = (case r1 of Inl e \<Rightarrow> Inl e | Inr u' \<Rightarrow> Inr (str_path a))"
proof (cases "path_exists w a")
  case False
  obtain r1 w1 where m: "mkdir True False a w = (r1, w1)" by (cases "mkdir True False a w")
  have fr: "frame w w1" using mkdir_props(1) [OF m] grows_belowD(1) by blast
  from assms(2) False m have "w' = w1"
    and "r = (case r1 of Inl e \<Rightarrow> Inl e | Inr u' \<Rightarrow> Inr (str_path a))"
    using absolute_frame [OF fr, of "Path d"]
    by (auto simp add: ensure_prometheus_dir_try_def Let_def a_def split: sum.splits)
  with False m show ?thesis using created by blast
next
  case True
  show ?thesis
  proof (cases "\<not> is_dir w a \<or> has_entries w a")
    case False
    with True assms(2) have "r = Inr (str_path a)" "w' = w"
      by (auto simp add: ensure_prometheus_dir_try_def Let_def a_def)
    with True False show ?thesis using kept by blast
  next
    case c: True
    obtain r1 w1 where rm: "rmtree a w = (r1, w1)" by (cases "rmtree a w")
    show ?thesis
    proof (cases r1)
      case (Inl e)
      from assms(2) True c rm Inl have "r = Inl e" "w' = w1"
        by (auto simp add: ensure_prometheus_dir_try_def Let_def a_def)
      with True c rm Inl show ?thesis using rm_failed by blast
    next
      case (Inr u)
      obtain r2 w2 where m: "mkdir False False a w1 = (r2, w2)"
        by (cases "mkdir False False a w1")
      have "frame w w1" using rm by (rule rmtree_frame)
      moreover have "frame w1 w2" using mkdir_props(1) [OF m] grows_belowD(1) by blast
      ultimately have fr: "frame w w2" by (rule frame_trans)
      from assms(2) True c rm Inr m have "w' = w2"
        and "r = (case r2 of Inl e \<Rightarrow> Inl e | Inr u' \<Rightarrow> Inr (str_path a))"
        using absolute_frame [OF fr, of "Path d"]
        by (auto simp add: ensure_prometheus_dir_try_def Let_def a_def split: sum.splits)
      with True c rm Inr m show ?thesis using cleaned by blast
    qed
  qed
qed

lemma ensure_try_props:
  assumes "ensure_prometheus_dir_try d True w = (r, w')"
  shows "fs_step w w'"
    and "r = Inl e \<Longrightarrow> is_OSError e"
    and "r = Inr s \<Longrightarrow> wf_fs w \<Longrightarrow>
           s = str_path (absolute w (Path d)) \<and> is_dir w' (absolute w (Path d))
           \<and> \<not> has_entries w' (absolute w (Path d))"
proof -
  let ?a = "absolute w (Path d)"
  have "fs_step w w' \<and> (\<forall>e. r = Inl e \<longrightarrow> is_OSError e)
      \<and> (\<forall>s. r = Inr s \<longrightarrow> wf_fs w \<longrightarrow>
            s = str_path ?a \<and> is_dir w' ?a \<and> \<not> has_entries w' ?a)"
    using assms
  proof (cases rule: ensure_try_cases)
    case kept
    then show ?thesis by simp
  next
    case (rm_failed e)
    from rmtree_Inl [OF rm_failed(3)] rmtree_fs_step [OF rm_failed(3)] rm_failed
    show ?thesis by simp
  next
    case (cleaned u w1 r2)
    have s1: "fs_step w w1" using cleaned(3) by (rule rmtree_fs_step)
    have g: "grows_below ?a w1 w'" using cleaned(4) by (rule mkdir_props(1))
    have s: "fs_step w w'" using s1 grows_below_fs_step [OF g] by (rule fs_step_trans)
    have ne: "\<not> has_entries w' ?a" if "wf_fs w"
    proof -
      have w1: "w1 = w\<lparr>fs := filter (\<lambda>e. \<not> prefix ?a (fst e)) (fs w)\<rparr>"
        using cleaned(3) that by (rule rmtree_Inr(1))
      show ?thesis
        using grows_below_no_new_entries [OF g]
          no_entries_after_rmtree [where w = w and p = "?a"] w1 by auto
    qed
    show ?thesis
    proof (cases r2)
      case (Inl e)
      with cleaned(5) mkdir_props(2) [OF cleaned(4)] s show ?thesis by simp
    next
      case (Inr u')
      with cleaned(5) mkdir_props(3) [OF cleaned(4)] s ne show ?thesis by simp
    qed
  next
    case (created r1)
    have g: "grows_below ?a w w'" using created(2) by (rule mkdir_props(1))
    have s: "fs_step w w'" using g by (rule grows_below_fs_step)
    show ?thesis
    proof (cases r1)
      case (Inl e)
      with created(3) mkdir_props(2) [OF created(2)] s show ?thesis by simp
    next
      case (Inr u')
      have "\<not> has_entries w' ?a" if "wf_fs w"
        using grows_below_no_new_entries [OF g] missing_has_no_entries [OF that created(1)]
        by blast
      with Inr created(3) mkdir_props(3) [OF created(2)] s show ?thesis by simp
    qed
  qed
  then show "fs_step w w'" and "r = Inl e \<Longrightarrow> is_OSError e"
    and "r = Inr s \<Longrightarrow> wf_fs w \<Longrightarrow>
           s = str_path ?a \<and> is_dir w' ?a \<and> \<not> has_entries w' ?a"
    by blast+
qed

lemma use_alternative_dir_Inl:
  "use_alternative_dir d w = (Inl e, w') \<Longrightarrow> mkdtemp w = (Inl e, w) \<and> w' = w"
  using mkdtemp_Inl [of w]
  by (cases "mkdtemp w") (auto simp add: use_alternative_dir_def split: sum.splits)

lemma use_alternative_dir_Inr:
  assumes "use_alternative_dir d w = (Inr alt, w')"
  shows "\<exists>w2. mkdtemp w = (Inr alt, w2)
           \<and> w' = w2\<lparr>warnings := warnings w2 @
                  [''Failed to ensure the prometheus multiproc directory '' @ d
                   @ '', using alternative: '' @ alt],
               prometheus_multiproc_dir := alt\<rparr>"
  using assms
  by (cases "mkdtemp w") (auto simp add: use_alternative_dir_def split: sum.splits)

lemma ensure_prometheus_dir_cases:
  assumes "ensure_prometheus_dir d True True w = (r, w')"
  obtains (direct) s where "ensure_prometheus_dir_try d True w = (Inr s, w')" "r = Inr s"
    | (fallback) e w1 where "ensure_prometheus_dir_try d True w = (Inl e, w1)" "is_OSError e"
        "use_alternative_dir d w1 = (r, w')"
proof (cases "ensure_prometheus_dir_try d True w")
  case (Pair r1 w1)
  show ?thesis
  proof (cases r1)
    case (Inr s)
    with Pair assms have "ensure_prometheus_dir_try d True w = (Inr s, w')" "r = Inr s"
      by (simp_all add: ensure_prometheus_dir_def)
    then show ?thesis by (rule direct)
  next
    case (Inl e)
    with Pair have t: "ensure_prometheus_dir_try d True w = (Inl e, w1)" by simp
    have ose: "is_OSError e" using ensure_try_props(2) [OF t] by simp
    with t assms have "use_alternative_dir d w1 = (r, w')"
      by (simp add: ensure_prometheus_dir_def)
    with t ose show ?thesis by (rule fallback)
  qed
qed

lemma ensure_prometheus_dir_frame:
  assumes "ensure_prometheus_dir d True True w = (r, w')"
  shows "frame w w'"
  using assms
proof (cases rule: ensure_prometheus_dir_cases)
  case (direct s)
  from ensure_try_props(1) [OF direct(1)] show ?thesis by (simp add: fs_step_def)
next
  case (fallback e w1)
  have f1: "frame w w1" using ensure_try_props(1) [OF fallback(1)] by (simp add: fs_step_def)
  show ?thesis
  proof (cases r)
    case (Inl e')
    with fallback(3) use_alternative_dir_Inl have "w' = w1" by blast
    with f1 show ?thesis by simp
  next
    case (Inr alt)
    with fallback(3) use_alternative_dir_Inr obtain w2 where
      m: "mkdtemp w1 = (Inr alt, w2)" and w': "w' = w2\<lparr>warnings := warnings w2 @
                  [''Failed to ensure the prometheus multiproc directory '' @ d
                   @ '', using alternative: '' @ alt],
               prometheus_multiproc_dir := alt\<rparr>" by blast
    have "frame w1 w2" using m by (rule mkdtemp_frame)
    then have "frame w1 w'" using w' by (simp add: frame_def)
    with f1 show ?thesis by (rule frame_trans)
  qed
qed


section \<open>The port reservations of the Windows branch\<close>

lemma windows_runners_Inr:
  assumes "windows_runners sys c rs st w = (Inr st', w')"
  shows "\<exists>ps extra.
           length ps = length rs \<and> distinct (ps @ [extra])
           \<and> set (ps @ [extra]) \<inter> set (bound_ports w) = {}
           \<and> w' = w\<lparr>port_log := port_log w @ map Reserved (ps @ [extra])
                                   @ map Released (rev (ps @ [extra])),
                     port_stack := []\<rparr>
           \<and> windows_runner_loop sys c rs st (w\<lparr>port_stack := []\<rparr>)
               = (Inr st', w\<lparr>bound_ports := rev ps @ bound_ports w,
                             port_log := port_log w @ map Reserved ps,
                             port_stack := rev ps\<rparr>)
           \<and> (\<forall>e \<in> set (circus_socket_map st').
                 e \<in> set (circus_socket_map st) \<or> loopback_on ps (snd e))
           \<and> (distinct (map runner_name rs)
                \<and> set (map runner_name rs) \<inter> fst ` set (circus_socket_map st) = {}
               \<longrightarrow> circus_socket_map st'
                   = circus_socket_map st
                     @ map (\<lambda>(r, q). (runner_name r, windows_socket c r q)) (zip rs ps))"
proof -
  let ?w0 = "w\<lparr>port_stack := []\<rparr>"
  from assms obtain w1 where
    loop: "windows_runner_loop sys c rs st ?w0 = (Inr st', w1)"
    by (auto simp add: windows_runners_def split: prod.splits sum.splits)
  from windows_runner_loop_Inr [OF loop] obtain ps where
    len: "length ps = length rs" and dist: "distinct ps"
    and disj: "set ps \<inter> set (bound_ports w) = {}"
    and w1: "w1 = w\<lparr>bound_ports := rev ps @ bound_ports w,
                      port_log := port_log w @ map Reserved ps,
                      port_stack := rev ps\<rparr>"
    and lb: "\<forall>e \<in> set (circus_socket_map st').
                 e \<in> set (circus_socket_map st) \<or> loopback_on ps (snd e)"
    and ex: "distinct (map runner_name rs)
                \<and> set (map runner_name rs) \<inter> fst ` set (circus_socket_map st) = {}
               \<longrightarrow> circus_socket_map st'
                   = circus_socket_map st
                     @ map (\<lambda>(r, q). (runner_name r, windows_socket c r q)) (zip rs ps)"
    by auto
  from assms loop obtain extra w2 where
    en: "enter_reserve_free_port w1 = (Inr extra, w2)" and w': "w' = close_port_stack w2"
    by (auto simp add: windows_runners_def split: prod.splits sum.splits)
  from enter_reserve_free_port_Inr [OF en] have
    fresh: "extra \<notin> set (bound_ports w1)"
    and w2: "w2 = w1\<lparr>bound_ports := extra # bound_ports w1,
                      port_log := port_log w1 @ [Reserved extra],
                      port_stack := extra # port_stack w1\<rparr>" by blast+
  have bp2: "bound_ports w2 = (extra # rev ps) @ bound_ports w" using w2 w1 by simp
  have ps2: "port_stack w2 = extra # rev ps" using w2 w1 by simp
  have "w' = (fold release_port (extra # rev ps) w2)\<lparr>port_stack := []\<rparr>"
    using w' ps2 by (simp add: close_port_stack_def)
  also have "fold release_port (extra # rev ps) w2
      = w2\<lparr>bound_ports := bound_ports w, port_log := port_log w2 @ map Released (extra # rev ps)\<rparr>"
    using bp2 by (rule fold_release_port)
  finally have "w' = w\<lparr>port_log := port_log w @ map Reserved (ps @ [extra])
                                   @ map Released (rev (ps @ [extra])),
                     port_stack := []\<rparr>"
    using w2 w1 by simp
  moreover have "distinct (ps @ [extra])" using dist fresh w1 by simp
  moreover have "set (ps @ [extra]) \<inter> set (bound_ports w) = {}"
    using disj fresh w1 by auto
  moreover note len loop [unfolded w1] lb ex
  ultimately show ?thesis by blast
qed

section \<open>Planning\<close>

lemma runner_setup_cases:
  assumes "runner_setup sys c svc w = (Inr (uds, st), w')"
  obtains (posix) u where "psutil_platform sys = Posix" "mkdtemp w = (Inr u, w')"
      "posix_runner_loop sys c u (runners svc) st0 = Inr st" "uds = Some u"
    | (windows) "psutil_platform sys = Windows"
      "windows_runners sys c (runners svc) st0 w = (Inr st, w')" "uds = None"
proof (cases "psutil_platform sys")
  case Posix
  with assms obtain u where "mkdtemp w = (Inr u, w')"
    "posix_runner_loop sys c u (runners svc) st0 = Inr st" "uds = Some u"
    by (auto simp add: runner_setup_def Let_def st0_def split: prod.splits sum.splits)
  with Posix show ?thesis by (rule posix)
next
  case Windows
  with assms have "windows_runners sys c (runners svc) st0 w = (Inr st, w')" "uds = None"
    by (auto simp add: runner_setup_def Let_def st0_def split: prod.splits sum.splits)
  with Windows show ?thesis by (rule windows)
next
  case OtherPlatform
  with assms show ?thesis by (simp add: runner_setup_def Let_def)
qed

lemma names_match_Nil: "names_match []"
  by (simp add: names_match_def)

lemma runner_setup_common:
  assumes "runner_setup sys c svc w = (Inr (uds, st), w')"
  shows "map watcher_name (watchers st) = map (\<lambda>r. ''runner_'' @ runner_name r) (runners svc)"
    and "map numprocesses (watchers st) = map scheduled_worker_count (runners svc)"
    and "map fst (runner_bind_map st) = dict_keys (map runner_name (runners svc)) []"
    and "map fst (circus_socket_map st) = dict_keys (map runner_name (runners svc)) []"
    and "names_match (circus_socket_map st)"
proof -
  have "map watcher_name (watchers st) = map (\<lambda>r. ''runner_'' @ runner_name r) (runners svc)
      \<and> map numprocesses (watchers st) = map scheduled_worker_count (runners svc)
      \<and> map fst (runner_bind_map st) = dict_keys (map runner_name (runners svc)) []
      \<and> map fst (circus_socket_map st) = dict_keys (map runner_name (runners svc)) []
      \<and> names_match (circus_socket_map st)"
    using assms
  proof (cases rule: runner_setup_cases)
    case (posix u)
    from posix_runner_loop_Inr [OF posix(3)] show ?thesis
      by (simp add: st0_def posix_runner_watcher_def names_match_Nil)
  next
    case windows
    from windows_runners_Inr [OF windows(2)] obtain w1 where
      "windows_runner_loop sys c (runners svc) st0 (w\<lparr>port_stack := []\<rparr>) = (Inr st, w1)"
      by blast
    from windows_runner_loop_Inr [OF this] show ?thesis
      by (auto simp add: st0_def windows_runner_watcher_def names_match_Nil)
  qed
  then show "map watcher_name (watchers st) = map (\<lambda>r. ''runner_'' @ runner_name r) (runners svc)"
    and "map numprocesses (watchers st) = map scheduled_worker_count (runners svc)"
    and "map fst (runner_bind_map st) = dict_keys (map runner_name (runners svc)) []"
    and "map fst (circus_socket_map st) = dict_keys (map runner_name (runners svc)) []"
    and "names_match (circus_socket_map st)"
    by blast+
qed

lemma serve_production_plan_cases:
  assumes "serve_production_plan sys c svc w = (Inr p, w')"
  obtains d w1 uds st where
    "ensure_prometheus_dir (prometheus_multiproc_dir w) True True w = (Inr d, w1)"
    "runner_setup sys c svc w1 = (Inr (uds, st), w')"
    "plan_watchers p = watchers st @ [api_watcher sys c (runner_bind_map st) d]"
    "plan_sockets p = map snd (AList.update ''_bento_api_server'' (api_server_socket c)
                                  (circus_socket_map st))"
    "plan_runner_bind_map p = runner_bind_map st"
    "plan_uds_path p = uds"
    "plan_prometheus_dir p = d"
proof -
  from assms obtain d w1 where
    e: "ensure_prometheus_dir (prometheus_multiproc_dir w) True True w = (Inr d, w1)"
    by (auto simp add: serve_production_plan_def split: prod.splits sum.splits)
  with assms obtain uds st where
    r: "runner_setup sys c svc w1 = (Inr (uds, st), w')"
    by (auto simp add: serve_production_plan_def split: prod.splits sum.splits)
  from assms e r have
    "p = \<lparr>plan_watchers = watchers st @ [api_watcher sys c (runner_bind_map st) d],
          plan_sockets = map snd (AList.update ''_bento_api_server'' (api_server_socket c)
                                  (circus_socket_map st)),
          plan_plugins = [],
          plan_prometheus_dir = d,
          plan_runner_bind_map = runner_bind_map st,
          plan_uds_path = uds\<rparr>"
    by (simp add: serve_production_plan_def Let_def api_watcher_def)
  then have "plan_watchers p = watchers st @ [api_watcher sys c (runner_bind_map st) d]"
    "plan_sockets p = map snd (AList.update ''_bento_api_server'' (api_server_socket c)
                                  (circus_socket_map st))"
    "plan_runner_bind_map p = runner_bind_map st"
    "plan_uds_path p = uds"
    "plan_prometheus_dir p = d"
    by simp_all
  with e r show ?thesis by (rule that)
qed

lemma plan_socket_names:
  assumes "names_match m"
  shows "map sock_name (map snd (AList.update ''_bento_api_server'' (api_server_socket c) m))
           = add_key ''_bento_api_server'' (map fst m)"
proof -
  have "names_match (AList.update ''_bento_api_server'' (api_server_socket c) m)"
    using assms by (rule names_match_update) (simp add: api_server_socket_def)
  from names_match_map [OF this] show ?thesis by (simp add: update_keys_add_key)
qed

lemma dict_keys_distinct_Nil: "distinct ks \<Longrightarrow> dict_keys ks [] = ks"
  using dict_keys_fresh [of ks "[]"] by simp

lemma api_numprocesses_eq:
  "api_numprocesses sys c =
     (case api_workers c of
        None \<Rightarrow> \<lceil>cpu_from_system sys\<rceil>
      | Some n \<Rightarrow> if n = 0 then \<lceil>cpu_from_system sys\<rceil> else n)"
  by (simp add: api_numprocesses_def truthy_int_def split: option.splits)

text \<open>
  C1, amended: whenever production planning completes for a service whose runners have
  distinct names, none of them the API server's socket name \<^verbatim>\<open>_bento_api_server\<close>,
  it has produced one socket and one watcher per runner, in the order of the runners,
  followed by the API server's socket and watcher; the runner map has one entry per
  runner; each runner watcher's process count is the runner's scheduled worker count,
  and the API server's is \<open>api_workers\<close> when that is given and not zero, and the
  ceiling of the CPU allotment otherwise.
\<close>

theorem production_plan_shape:
  assumes "serve_production_plan sys c svc w = (Inr p, w')"
    and "distinct (map runner_name (runners svc))"
    and "''_bento_api_server'' \<notin> set (map runner_name (runners svc))"
  shows "length (plan_watchers p) = length (runners svc) + 1
       \<and> length (plan_sockets p) = length (runners svc) + 1
       \<and> map sock_name (plan_sockets p) = map runner_name (runners svc) @ [''_bento_api_server'']
       \<and> map watcher_name (plan_watchers p)
           = map (\<lambda>r. ''runner_'' @ runner_name r) (runners svc) @ [''api_server'']
       \<and> map numprocesses (plan_watchers p)
           = map scheduled_worker_count (runners svc)
             @ [case api_workers c of
                  None \<Rightarrow> \<lceil>cpu_from_system sys\<rceil>
                | Some n \<Rightarrow> if n = 0 then \<lceil>cpu_from_system sys\<rceil> else n]
       \<and> map fst (plan_runner_bind_map p) = map runner_name (runners svc)
       \<and> length (plan_runner_bind_map p) = length (runners svc)"
  using assms(1)
proof (cases rule: serve_production_plan_cases)
  case (1 d w1 uds st)
  note common = runner_setup_common [OF 1(2)]
  have keys: "dict_keys (map runner_name (runners svc)) [] = map runner_name (runners svc)"
    using assms(2) by (rule dict_keys_distinct_Nil)
  have names: "map sock_name (plan_sockets p)
      = map runner_name (runners svc) @ [''_bento_api_server'']"
    using plan_socket_names [OF common(5), of c] common(4) keys assms(3) 1(4)
    by (simp add: add_key_def)
  have wn: "map watcher_name (plan_watchers p)
      = map (\<lambda>r. ''runner_'' @ runner_name r) (runners svc) @ [''api_server'']"
    using 1(3) common(1) by (simp add: api_watcher_def)
  have np: "map numprocesses (plan_watchers p)
           = map scheduled_worker_count (runners svc)
             @ [case api_workers c of
                  None \<Rightarrow> \<lceil>cpu_from_system sys\<rceil>
                | Some n \<Rightarrow> if n = 0 then \<lceil>cpu_from_system sys\<rceil> else n]"
    using 1(3) common(2) by (simp add: api_watcher_def api_numprocesses_eq)
  have bm: "map fst (plan_runner_bind_map p) = map runner_name (runners svc)"
    using 1(5) common(3) keys by simp
  have l1: "length (plan_watchers p) = length (runners svc) + 1"
    using arg_cong [OF wn, of length] by simp
  have l2: "length (plan_sockets p) = length (runners svc) + 1"
    using arg_cong [OF names, of length] by simp
  have l3: "length (plan_runner_bind_map p) = length (runners svc)"
    using arg_cong [OF bm, of length] by simp
  from l1 l2 names wn np bm l3 show ?thesis by blast
qed


lemma frame_arbiters: "frame w w' \<Longrightarrow> arbiters_started w' = arbiters_started w"
  by (simp add: frame_def)

text \<open>
  C2, amended: on a POSIX platform, once the metrics directory is resolved and the
  temporary directory for the sockets is created, a runner whose socket path has 103
  characters or more makes the planning, and with it \<^verbatim>\<open>serve_production\<close>, fail with
  an \<^verbatim>\<open>AssertionError\<close> (which names no runner); no supervisor has been started, so no
  socket is bound and no process is spawned.
\<close>

theorem long_socket_path_aborts_planning:
  assumes "psutil_platform sys = Posix"
    and "ensure_prometheus_dir (prometheus_multiproc_dir w) True True w = (Inr d, w1)"
    and "mkdtemp w1 = (Inr uds_path, w2)"
    and "\<exists>r \<in> set (runners svc). 103 \<le> length (socket_path_of uds_path r)"
  shows "serve_production_plan sys c svc w = (Inl AssertionError, w2)
       \<and> serve_production sys c svc w = (Inl AssertionError, w2)
       \<and> arbiters_started w2 = arbiters_started w"
proof -
  from assms(4) have "\<exists>r \<in> set (runners svc).
      \<not> length (socket_path_of uds_path r) < MAX_AF_UNIX_PATH_LENGTH"
    by (simp add: MAX_AF_UNIX_PATH_LENGTH_def not_less)
  then have loop: "posix_runner_loop sys c uds_path (runners svc) st0 = Inl AssertionError"
    by (rule posix_runner_loop_long)
  have rsetup: "runner_setup sys c svc w1 = (Inl AssertionError, w2)"
    using assms(1,3) loop by (simp add: runner_setup_def Let_def st0_def)
  have plan: "serve_production_plan sys c svc w = (Inl AssertionError, w2)"
    using assms(2) rsetup by (simp add: serve_production_plan_def)
  have serve: "serve_production sys c svc w = (Inl AssertionError, w2)"
    using plan by (simp add: serve_production_def)
  have "frame w w1" using assms(2) by (rule ensure_prometheus_dir_frame)
  moreover have "frame w1 w2" using assms(3) by (rule mkdtemp_frame)
  ultimately have "frame w w2" by (rule frame_trans)
  then have "arbiters_started w2 = arbiters_started w" by (rule frame_arbiters)
  with plan serve show ?thesis by simp
qed


text \<open>
  C6: whenever the metrics directory is resolved, development planning succeeds with
  exactly one socket, the API server's, and exactly one watcher, \<^verbatim>\<open>dev_api_server\<close>
  with process count 1, whose argument vector has neither a \<^verbatim>\<open>--runner-map\<close> nor a
  \<^verbatim>\<open>--runner-name\<close> option; the plan does not depend on the service and its runners.
\<close>

theorem development_plan_single_process:
  assumes "ensure_prometheus_dir (prometheus_multiproc_dir w) True True w = (Inr d, w1)"
  shows "\<exists>p w'. serve_development_plan sys c svc w = (Inr p, w')
       \<and> plan_sockets p = [api_server_socket c]
       \<and> sock_name (api_server_socket c) = ''_bento_api_server''
       \<and> length (plan_watchers p) = 1
       \<and> watcher_name (hd (plan_watchers p)) = ''dev_api_server''
       \<and> numprocesses (hd (plan_watchers p)) = 1
       \<and> args (hd (plan_watchers p)) = dev_api_server_watcher_args c d
       \<and> map_of (options_of (args (hd (plan_watchers p)))) ''--runner-map'' = None
       \<and> map_of (options_of (args (hd (plan_watchers p)))) ''--runner-name'' = None
       \<and> serve_development_plan sys c svc' w = serve_development_plan sys c svc w"
  using assms
  by (simp add: serve_development_plan_def Let_def Watcher_numprocesses_default_def
      options_of_dev map_of_pairs_opt_segment api_server_socket_def del: append_Nil2)

lemma dev_plan_prometheus_dir:
  assumes "ensure_prometheus_dir (prometheus_multiproc_dir w) True True w = (Inr d, w1)"
  shows "\<exists>p w'. serve_development_plan sys c svc w = (Inr p, w')
       \<and> plan_prometheus_dir p = d
       \<and> map_of (options_of (args (hd (plan_watchers p)))) ''--prometheus-dir'' = Some d"
  using assms
  by (simp add: serve_development_plan_def Let_def options_of_dev)

lemma production_plan_prometheus_dir:
  assumes "ensure_prometheus_dir (prometheus_multiproc_dir w) True True w = (Inr d, w1)"
    and "serve_production_plan sys c svc w = (Inr p, w')"
  shows "plan_prometheus_dir p = d
       \<and> map_of (options_of (args (last (plan_watchers p)))) ''--prometheus-dir'' = Some d"
  using assms(2)
proof (cases rule: serve_production_plan_cases)
  case (1 d' w1' uds st)
  with assms(1) have "d' = d" by simp
  with 1(3,7) show ?thesis by (simp add: api_watcher_def api_option_prometheus_dir)
qed

text \<open>
  C7, amended: when the creation or cleaning of the configured metrics directory fails
  and the alternative temporary directory can be created, the resolution with its
  default parameters returns that new directory (it did not exist before), records one
  warning and stores the directory in the configuration container; development and
  production planning then pass it to the API server as \<^verbatim>\<open>--prometheus-dir\<close>.
\<close>

theorem metrics_dir_fallback:
  assumes "ensure_prometheus_dir_try d True w = (Inl e, w1)"
    and "mkdtemp w1 = (Inr alt, w2)"
  shows "ensure_prometheus_dir d True True w
           = (Inr alt,
              w2\<lparr>warnings := warnings w @
                    [''Failed to ensure the prometheus multiproc directory '' @ d
                     @ '', using alternative: '' @ alt],
                 prometheus_multiproc_dir := alt\<rparr>)
       \<and> (\<exists>n. alt = str_path (tmpdir w1 @ [n]) \<and> \<not> path_exists w1 (tmpdir w1 @ [n])
              \<and> is_dir w2 (tmpdir w1 @ [n]))
       \<and> (d = prometheus_multiproc_dir w \<longrightarrow>
            (\<exists>p w'. serve_development_plan sys c svc w = (Inr p, w')
               \<and> plan_prometheus_dir p = alt
               \<and> map_of (options_of (args (hd (plan_watchers p)))) ''--prometheus-dir''
                   = Some alt))
       \<and> (\<forall>p w'. d = prometheus_multiproc_dir w
              \<and> serve_production_plan sys c svc w = (Inr p, w')
            \<longrightarrow> plan_prometheus_dir p = alt
              \<and> map_of (options_of (args (last (plan_watchers p)))) ''--prometheus-dir''
                  = Some alt)"
proof -
  have ose: "is_OSError e" using ensure_try_props(2) [OF assms(1)] by simp
  have st: "fs_step w w1" using assms(1) by (rule ensure_try_props(1))
  from mkdtemp_Inr [OF assms(2)] obtain n rest where
    n: "alt = str_path (tmpdir w1 @ [n])" "\<not> path_exists w1 (tmpdir w1 @ [n])"
    and w2: "w2 = w1\<lparr>fs := fs w1 @ [(tmpdir w1 @ [n], Dir)], tmp_names := rest\<rparr>"
    by blast
  have wn: "warnings w2 = warnings w" using w2 st by (simp add: fs_step_def)
  have res: "ensure_prometheus_dir d True True w
           = (Inr alt,
              w2\<lparr>warnings := warnings w @
                    [''Failed to ensure the prometheus multiproc directory '' @ d
                     @ '', using alternative: '' @ alt],
                 prometheus_multiproc_dir := alt\<rparr>)"
    using assms ose wn by (simp add: ensure_prometheus_dir_def use_alternative_dir_def)
  have "is_dir (w1\<lparr>fs := fs w1 @ [(tmpdir w1 @ [n], Dir)]\<rparr>) (tmpdir w1 @ [n])"
    using n(2) by (rule is_dir_after_add)
  then have fresh: "is_dir w2 (tmpdir w1 @ [n])"
    using w2 by (simp add: is_dir_def lookup_node_def)
  have dev: "\<exists>p w'. serve_development_plan sys c svc w = (Inr p, w')
               \<and> plan_prometheus_dir p = alt
               \<and> map_of (options_of (args (hd (plan_watchers p)))) ''--prometheus-dir''
                   = Some alt" if "d = prometheus_multiproc_dir w"
    using res that by (intro dev_plan_prometheus_dir) simp
  have prod: "plan_prometheus_dir p = alt
              \<and> map_of (options_of (args (last (plan_watchers p)))) ''--prometheus-dir''
                  = Some alt"
    if "d = prometheus_multiproc_dir w \<and> serve_production_plan sys c svc w = (Inr p, w')"
    for p w'
    using res that production_plan_prometheus_dir by blast
  from res n fresh dev prod show ?thesis by blast
qed

section \<open>Cleaning a non-empty metrics directory\<close>



section \<open>Example runs, witnesses and counterexamples\<close>

lemmas fs_eval = ensure_prometheus_dir_def ensure_prometheus_dir_try_def use_alternative_dir_def
  mkdtemp_def rmtree_def removal_order.simps scandir_def removable_def os_mkdir_def mkdir_def mkdir_once_def lookup_node_def path_exists_def
  is_dir_def has_entries_def Path_def absolute_def str_path_def str_pure_path_def Let_def
  is_OSError_def shutil_rmtree_def

lemma ensure_healthy:
  "ensure_prometheus_dir (prometheus_multiproc_dir healthy_world) True True healthy_world
     = (Inr ''/srv/metrics'', healthy_world)"
  by (simp add: healthy_world_def fs_eval)

lemma mkdtemp_healthy:
  "mkdtemp healthy_world
     = (Inr ''/tmp/tmpk3x9q2ab'',
        healthy_world\<lparr>fs := fs healthy_world @ [([''tmp'', ''tmpk3x9q2ab''], Dir)],
                      tmp_names := [''tmp7fh2m1zz'']\<rparr>)"
  by (simp add: healthy_world_def fs_eval)

lemma str_nat_embedder: "str_nat 140234866042576 = ''140234866042576''"
  by (simp add: str_nat.simps digit_char_def)

lemma str_nat_classifier: "str_nat 140234866042960 = ''140234866042960''"
  by (simp add: str_nat.simps digit_char_def)

lemma socket_path_embedder:
  "socket_path_of ''/tmp/tmpk3x9q2ab'' embedder = ''/tmp/tmpk3x9q2ab/140234866042576.sock''"
  by (simp add: socket_path_of_def os_path_join_def embedder_def str_nat_embedder)

lemma socket_path_classifier:
  "socket_path_of ''/tmp/tmpk3x9q2ab'' classifier = ''/tmp/tmpk3x9q2ab/140234866042960.sock''"
  by (simp add: socket_path_of_def os_path_join_def classifier_def str_nat_classifier)

lemma posix_plan_ok:
  assumes "\<forall>r \<in> set (runners svc).
     length (socket_path_of ''/tmp/tmpk3x9q2ab'' r) < MAX_AF_UNIX_PATH_LENGTH"
  shows "\<exists>p. serve_production_plan posix_system c svc healthy_world
     = (Inr p, healthy_world\<lparr>fs := fs healthy_world @ [([''tmp'', ''tmpk3x9q2ab''], Dir)],
                      tmp_names := [''tmp7fh2m1zz'']\<rparr>)
     \<and> plan_uds_path p = Some ''/tmp/tmpk3x9q2ab''"
proof -
  from posix_runner_loop_short [OF assms] obtain st where
    "posix_runner_loop posix_system c ''/tmp/tmpk3x9q2ab'' (runners svc) st0 = Inr st"
    by blast
  then show ?thesis
    using ensure_healthy mkdtemp_healthy
    by (simp add: serve_production_plan_def runner_setup_def posix_system_def Let_def st0_def)
qed

lemma socket_path_clashing:
  "socket_path_of ''/tmp/tmpk3x9q2ab'' clashing_runner = ''/tmp/tmpk3x9q2ab/140234866042576.sock''"
  by (simp add: socket_path_of_def os_path_join_def clashing_runner_def str_nat_embedder)

lemma socket_path_twin:
  "socket_path_of ''/tmp/tmpk3x9q2ab'' embedder_twin = ''/tmp/tmpk3x9q2ab/140234866042960.sock''"
  by (simp add: socket_path_of_def os_path_join_def embedder_twin_def str_nat_classifier)

lemmas short_paths = socket_path_embedder socket_path_classifier socket_path_clashing
  socket_path_twin MAX_AF_UNIX_PATH_LENGTH_def

lemma ceiling_cpu: "\<lceil>cpu_from_system posix_system\<rceil> = 4"
  by (simp add: posix_system_def)

lemma ensure_long:
  "ensure_prometheus_dir (prometheus_multiproc_dir long_tmp_world) True True long_tmp_world
     = (Inr ''/srv/metrics'', long_tmp_world)"
  by (simp add: long_tmp_world_def healthy_world_def long_tmpdir_def fs_eval)

lemma mkdtemp_long:
  "mkdtemp long_tmp_world
     = (Inr long_uds_path,
        long_tmp_world\<lparr>fs := fs long_tmp_world @ [(long_tmpdir @ [''tmpk3x9q2ab''], Dir)],
                       tmp_names := [''tmp7fh2m1zz'']\<rparr>)"
  by (simp add: long_tmp_world_def healthy_world_def long_tmpdir_def long_uds_path_def fs_eval)

lemma long_socket_path: "length (socket_path_of long_uds_path embedder) = 110"
  by (simp add: socket_path_of_def os_path_join_def embedder_def str_nat_embedder
      long_uds_path_def)

lemma long_world_plan:
  "serve_production_plan posix_system c two_runner_service long_tmp_world
     = (Inl AssertionError,
        long_tmp_world\<lparr>fs := fs long_tmp_world @ [(long_tmpdir @ [''tmpk3x9q2ab''], Dir)],
                       tmp_names := [''tmp7fh2m1zz'']\<rparr>)"
proof -
  have "\<exists>r \<in> set (runners two_runner_service).
      \<not> length (socket_path_of long_uds_path r) < MAX_AF_UNIX_PATH_LENGTH"
    by (simp add: two_runner_service_def long_socket_path MAX_AF_UNIX_PATH_LENGTH_def)
  then have "posix_runner_loop posix_system c long_uds_path (runners two_runner_service) st0
      = Inl AssertionError"
    by (rule posix_runner_loop_long)
  then show ?thesis
    using ensure_long mkdtemp_long
    by (simp add: serve_production_plan_def runner_setup_def posix_system_def Let_def st0_def)
qed

text \<open>
  C1, as stated, fails in two ways. With \<open>api_workers = 0\<close> given, the API server gets
  the ceiling of the CPU allotment (4 of 3.5), not 0. With a single runner named
  \<^verbatim>\<open>_bento_api_server\<close> the plan has one socket, not two: the API server's socket
  replaces the runner's.
\<close>

theorem production_plan_shape_counterexample:
  "(\<exists>p w'. serve_production_plan posix_system zero_workers_params two_runner_service healthy_world
              = (Inr p, w')
           \<and> api_workers zero_workers_params = Some 0
           \<and> numprocesses (last (plan_watchers p)) = 4)
   \<and> (\<exists>p w'. serve_production_plan posix_system iris_params clashing_service healthy_world
              = (Inr p, w')
           \<and> distinct (map runner_name (runners clashing_service))
           \<and> length (runners clashing_service) = 1
           \<and> length (plan_sockets p) = 1)"
proof (intro conjI)
  from posix_plan_ok [of two_runner_service zero_workers_params] obtain p w' where
    plan: "serve_production_plan posix_system zero_workers_params two_runner_service healthy_world
             = (Inr p, w')"
    by (auto simp add: two_runner_service_def short_paths)
  from plan have "numprocesses (last (plan_watchers p)) = 4"
    by (cases rule: serve_production_plan_cases)
       (simp add: api_watcher_def api_numprocesses_eq zero_workers_params_def ceiling_cpu)
  with plan show "\<exists>p w'. serve_production_plan posix_system zero_workers_params two_runner_service
        healthy_world = (Inr p, w')
           \<and> api_workers zero_workers_params = Some 0
           \<and> numprocesses (last (plan_watchers p)) = 4"
    by (auto simp add: zero_workers_params_def)
next
  from posix_plan_ok [of clashing_service iris_params] obtain p w' where
    plan: "serve_production_plan posix_system iris_params clashing_service healthy_world
             = (Inr p, w')"
    by (auto simp add: clashing_service_def short_paths)
  from plan have "length (plan_sockets p) = 1"
  proof (cases rule: serve_production_plan_cases)
    case (1 d w1 uds st)
    note common = runner_setup_common [OF 1(2)]
    from plan_socket_names [OF common(5), of iris_params] common(4) 1(4)
    have "map sock_name (plan_sockets p) = [''_bento_api_server'']"
      by (simp add: clashing_service_def clashing_runner_def add_key_def)
    from arg_cong [OF this, of length] show ?thesis by simp
  qed
  with plan show "\<exists>p w'. serve_production_plan posix_system iris_params clashing_service
        healthy_world = (Inr p, w')
           \<and> distinct (map runner_name (runners clashing_service))
           \<and> length (runners clashing_service) = 1
           \<and> length (plan_sockets p) = 1"
    by (auto simp add: clashing_service_def)
qed

text \<open>The service with the runners \<^verbatim>\<open>embedder\<close> and \<^verbatim>\<open>classifier\<close> on a POSIX system.\<close>

theorem production_plan_shape_witness:
  "\<exists>p w'. serve_production_plan posix_system iris_params two_runner_service healthy_world
            = (Inr p, w')
     \<and> distinct (map runner_name (runners two_runner_service))
     \<and> ''_bento_api_server'' \<notin> set (map runner_name (runners two_runner_service))
     \<and> length (plan_watchers p) = 3
     \<and> map sock_name (plan_sockets p) = [''embedder'', ''classifier'', ''_bento_api_server'']
     \<and> map numprocesses (plan_watchers p) = [2, 1, 4]
     \<and> map fst (plan_runner_bind_map p) = [''embedder'', ''classifier'']"
proof -
  from posix_plan_ok [of two_runner_service iris_params] obtain p w' where
    plan: "serve_production_plan posix_system iris_params two_runner_service healthy_world
             = (Inr p, w')"
    by (auto simp add: two_runner_service_def short_paths)
  have d: "distinct (map runner_name (runners two_runner_service))"
    by (simp add: two_runner_service_def embedder_def classifier_def)
  have n: "''_bento_api_server'' \<notin> set (map runner_name (runners two_runner_service))"
    by (simp add: two_runner_service_def embedder_def classifier_def)
  from production_plan_shape [OF plan d n] plan d n show ?thesis
    by (simp add: two_runner_service_def embedder_def classifier_def iris_params_def
        no_ssl_def ssl_params.defs serve_params.defs ceiling_cpu)
qed

lemma posix_healthy_plan:
  assumes "psutil_platform sys = Posix"
    and "\<forall>r \<in> set (runners svc).
     length (socket_path_of ''/tmp/tmpk3x9q2ab'' r) < MAX_AF_UNIX_PATH_LENGTH"
  shows "\<exists>p. serve_production_plan sys c svc healthy_world
     = (Inr p, healthy_world\<lparr>fs := fs healthy_world @ [([''tmp'', ''tmpk3x9q2ab''], Dir)],
                      tmp_names := [''tmp7fh2m1zz'']\<rparr>)
     \<and> plan_uds_path p = Some ''/tmp/tmpk3x9q2ab''"
proof -
  from posix_runner_loop_short [OF assms(2)] obtain st where
    "posix_runner_loop sys c ''/tmp/tmpk3x9q2ab'' (runners svc) st0 = Inr st"
    by blast
  then show ?thesis
    using ensure_healthy mkdtemp_healthy assms(1)
    by (simp add: serve_production_plan_def runner_setup_def Let_def st0_def)
qed

lemma rmtree_socket_dir:
  "shutil_rmtree ''/tmp/tmpk3x9q2ab''
     (healthy_world\<lparr>fs := fs healthy_world @ [([''tmp'', ''tmpk3x9q2ab''], Dir)],
                    tmp_names := [''tmp7fh2m1zz''], arbiters_started := a\<rparr>)
   = (Inr (), healthy_world\<lparr>tmp_names := [''tmp7fh2m1zz''], arbiters_started := a\<rparr>)"
  by (simp add: healthy_world_def fs_eval)

lemma posix_healthy_serve:
  assumes "psutil_platform sys = Posix"
    and "\<forall>r \<in> set (runners svc).
     length (socket_path_of ''/tmp/tmpk3x9q2ab'' r) < MAX_AF_UNIX_PATH_LENGTH"
  shows "fst (serve_production sys c svc healthy_world)
           = (case arbiter_start_raises sys of None \<Rightarrow> Inr () | Some e \<Rightarrow> Inl e)
       \<and> fs (snd (serve_production sys c svc healthy_world)) = fs healthy_world
       \<and> length (arbiters_started (snd (serve_production sys c svc healthy_world))) = 1"
proof -
  from posix_healthy_plan [OF assms] obtain p where
    "serve_production_plan sys c svc healthy_world
     = (Inr p, healthy_world\<lparr>fs := fs healthy_world @ [([''tmp'', ''tmpk3x9q2ab''], Dir)],
                      tmp_names := [''tmp7fh2m1zz'']\<rparr>)"
    and "plan_uds_path p = Some ''/tmp/tmpk3x9q2ab''" by blast
  then show ?thesis
    by (simp add: serve_production_def arbiter_start_def rmtree_socket_dir)
       (simp add: healthy_world_def)
qed

lemma two_runner_short:
  "\<forall>r \<in> set (runners two_runner_service).
     length (socket_path_of ''/tmp/tmpk3x9q2ab'' r) < MAX_AF_UNIX_PATH_LENGTH"
  by (simp add: two_runner_service_def short_paths)

lemma long_world_serve:
  "serve_production posix_system c two_runner_service long_tmp_world
     = (Inl AssertionError,
        long_tmp_world\<lparr>fs := fs long_tmp_world @ [(long_tmpdir @ [''tmpk3x9q2ab''], Dir)],
                       tmp_names := [''tmp7fh2m1zz'']\<rparr>)"
  by (simp add: serve_production_def long_world_plan)

lemma long_world_dir_new:
  "\<not> path_exists long_tmp_world (long_tmpdir @ [''tmpk3x9q2ab''])"
  by (simp add: path_exists_def lookup_node_def long_tmp_world_def healthy_world_def
      long_tmpdir_def)

lemma long_world_dir_left:
  "is_dir (long_tmp_world\<lparr>fs := fs long_tmp_world @ [(long_tmpdir @ [''tmpk3x9q2ab''], Dir)],
                       tmp_names := [''tmp7fh2m1zz'']\<rparr>) (long_tmpdir @ [''tmpk3x9q2ab''])"
  by (simp add: is_dir_def lookup_node_def long_tmp_world_def healthy_world_def
      long_tmpdir_def)

text \<open>
  C2, as stated, fails: with a socket path of 110 characters the failure is a bare
  \<^verbatim>\<open>AssertionError\<close>, not an error that names the runner, and the temporary directory
  for the sockets, which did not exist before, has been created and is still there.
\<close>

theorem long_socket_path_counterexample:
  "length (socket_path_of long_uds_path embedder) = 110
   \<and> fst (serve_production posix_system iris_params two_runner_service long_tmp_world)
        = Inl AssertionError
   \<and> \<not> path_exists long_tmp_world (long_tmpdir @ [''tmpk3x9q2ab''])
   \<and> is_dir (snd (serve_production posix_system iris_params two_runner_service long_tmp_world))
        (long_tmpdir @ [''tmpk3x9q2ab''])"
  using long_world_dir_left
  by (simp add: long_socket_path long_world_serve long_world_dir_new)

theorem long_socket_path_aborts_planning_witness:
  "psutil_platform posix_system = Posix
   \<and> (\<exists>r \<in> set (runners two_runner_service). 103 \<le> length (socket_path_of long_uds_path r))
   \<and> fst (serve_production_plan posix_system iris_params two_runner_service long_tmp_world)
        = Inl AssertionError
   \<and> fst (serve_production posix_system iris_params two_runner_service long_tmp_world)
        = Inl AssertionError
   \<and> arbiters_started
        (snd (serve_production posix_system iris_params two_runner_service long_tmp_world)) = []"
proof -
  have p: "psutil_platform posix_system = Posix" by (simp add: posix_system_def)
  have l: "\<exists>r \<in> set (runners two_runner_service). 103 \<le> length (socket_path_of long_uds_path r)"
    by (simp add: two_runner_service_def long_socket_path)
  have a: "arbiters_started long_tmp_world = []"
    by (simp add: long_tmp_world_def healthy_world_def)
  from long_socket_path_aborts_planning [OF p ensure_long mkdtemp_long l, of iris_params] p l a
  show ?thesis by simp
qed

text \<open>
  C4 fails on the code. A production serve on a POSIX system whose temporary directory
  makes the socket path 110 characters long raises the \<^verbatim>\<open>AssertionError\<close> during
  planning, after \<^verbatim>\<open>tempfile.mkdtemp()\<close> has created the directory for the sockets:
  the directory, which did not exist before, is still there when \<^verbatim>\<open>serve_production\<close>
  is left, and no supervisor was started. The \<^verbatim>\<open>finally\<close> clause covers only
  \<^verbatim>\<open>arbiter.start\<close>: there the directory is removed, both when the supervisor returns
  and when it raises.
\<close>

theorem socket_dir_left_behind_after_failed_planning:
  "fst (serve_production posix_system iris_params two_runner_service long_tmp_world)
        = Inl AssertionError
   \<and> \<not> path_exists long_tmp_world (long_tmpdir @ [''tmpk3x9q2ab''])
   \<and> path_exists (snd (serve_production posix_system iris_params two_runner_service long_tmp_world))
        (long_tmpdir @ [''tmpk3x9q2ab''])
   \<and> arbiters_started
        (snd (serve_production posix_system iris_params two_runner_service long_tmp_world)) = []
   \<and> fst (serve_production posix_system iris_params two_runner_service healthy_world) = Inr ()
   \<and> fs (snd (serve_production posix_system iris_params two_runner_service healthy_world))
        = fs healthy_world
   \<and> fst (serve_production interrupted_system iris_params two_runner_service healthy_world)
        = Inl KeyboardInterrupt
   \<and> fs (snd (serve_production interrupted_system iris_params two_runner_service healthy_world))
        = fs healthy_world"
proof -
  have p1: "psutil_platform posix_system = Posix" by (simp add: posix_system_def)
  have p2: "psutil_platform interrupted_system = Posix"
    by (simp add: interrupted_system_def posix_system_def)
  have r1: "arbiter_start_raises posix_system = None" by (simp add: posix_system_def)
  have r2: "arbiter_start_raises interrupted_system = Some KeyboardInterrupt"
    by (simp add: interrupted_system_def)
  have a: "arbiters_started long_tmp_world = []"
    by (simp add: long_tmp_world_def healthy_world_def)
  have l: "path_exists
      (snd (serve_production posix_system iris_params two_runner_service long_tmp_world))
      (long_tmpdir @ [''tmpk3x9q2ab''])"
    using long_world_dir_left by (simp add: long_world_serve is_dir_exists)
  from posix_healthy_serve [OF p1 two_runner_short, of iris_params]
       posix_healthy_serve [OF p2 two_runner_short, of iris_params] l a r1 r2
  show ?thesis
    by (simp add: long_world_serve long_world_dir_new)
qed




theorem development_plan_single_process_witness:
  "ensure_prometheus_dir (prometheus_multiproc_dir healthy_world) True True healthy_world
     = (Inr ''/srv/metrics'', healthy_world)
   \<and> (\<exists>p w'. serve_development_plan posix_system iris_params two_runner_service healthy_world
               = (Inr p, w')
         \<and> length (plan_watchers p) = 1
         \<and> plan_sockets p = [api_server_socket iris_params]
         \<and> numprocesses (hd (plan_watchers p)) = 1
         \<and> args (hd (plan_watchers p))
             = [''-m'', ''bentoml_cli.server.http_dev_api_server'', ''iris_classifier:latest'',
                ''--bind'', ''fd://$(circus.sockets._bento_api_server)'',
                ''--working-dir'', ''/srv/iris'', ''--prometheus-dir'', ''/srv/metrics''])"
  using development_plan_single_process [OF ensure_healthy,
      of posix_system iris_params two_runner_service two_runner_service] ensure_healthy
  by (auto simp add: dev_api_server_watcher_args_def extend_ssl_args_def extend_if_present_def
      SCRIPT_DEV_API_SERVER_def iris_params_def no_ssl_def ssl_params.defs serve_params.defs)

lemma try_readonly:
  "ensure_prometheus_dir_try ''/srv/metrics'' True readonly_metrics_world
     = (Inl (OSError PermissionError), readonly_metrics_world)"
  by (simp add: readonly_metrics_world_def healthy_world_def fs_eval)

lemma mkdtemp_readonly:
  "mkdtemp readonly_metrics_world
     = (Inr ''/tmp/tmpk3x9q2ab'',
        readonly_metrics_world\<lparr>fs := fs readonly_metrics_world @ [([''tmp'', ''tmpk3x9q2ab''], Dir)],
                               tmp_names := [''tmp7fh2m1zz'']\<rparr>)"
  by (simp add: readonly_metrics_world_def healthy_world_def fs_eval)

text \<open>
  C7, as stated, fails: when the metrics directory cannot be created and the temporary
  directory refuses the new directory as well, the resolution raises, and so does
  development planning.
\<close>

theorem metrics_dir_fallback_counterexample:
  "ensure_prometheus_dir_try (prometheus_multiproc_dir sealed_world) True sealed_world
     = (Inl (OSError PermissionError), sealed_world)
   \<and> ensure_prometheus_dir (prometheus_multiproc_dir sealed_world) True True sealed_world
       = (Inl (OSError PermissionError), sealed_world)
   \<and> fst (serve_development_plan posix_system iris_params two_runner_service sealed_world)
       = Inl (OSError PermissionError)"
proof -
  have t: "ensure_prometheus_dir_try (prometheus_multiproc_dir sealed_world) True sealed_world
     = (Inl (OSError PermissionError), sealed_world)"
    by (simp add: sealed_world_def healthy_world_def fs_eval)
  have m: "mkdtemp sealed_world = (Inl (OSError PermissionError), sealed_world)"
    by (simp add: sealed_world_def healthy_world_def fs_eval)
  have e: "ensure_prometheus_dir (prometheus_multiproc_dir sealed_world) True True sealed_world
       = (Inl (OSError PermissionError), sealed_world)"
    using t m by (simp add: ensure_prometheus_dir_def use_alternative_dir_def is_OSError_def)
  from t e show ?thesis by (simp add: serve_development_plan_def)
qed

theorem metrics_dir_fallback_witness:
  "ensure_prometheus_dir_try ''/srv/metrics'' True readonly_metrics_world
     = (Inl (OSError PermissionError), readonly_metrics_world)
   \<and> fst (ensure_prometheus_dir ''/srv/metrics'' True True readonly_metrics_world)
       = Inr ''/tmp/tmpk3x9q2ab''
   \<and> warnings (snd (ensure_prometheus_dir ''/srv/metrics'' True True readonly_metrics_world))
       = [''Failed to ensure the prometheus multiproc directory /srv/metrics, using alternative: /tmp/tmpk3x9q2ab'']
   \<and> prometheus_multiproc_dir
         (snd (ensure_prometheus_dir ''/srv/metrics'' True True readonly_metrics_world))
       = ''/tmp/tmpk3x9q2ab''
   \<and> (\<exists>p w'. serve_development_plan posix_system iris_params two_runner_service
                 readonly_metrics_world = (Inr p, w')
          \<and> plan_prometheus_dir p = ''/tmp/tmpk3x9q2ab'')"
proof -
  have w: "warnings readonly_metrics_world = []"
    "prometheus_multiproc_dir readonly_metrics_world = ''/srv/metrics''"
    by (simp_all add: readonly_metrics_world_def healthy_world_def)
  from metrics_dir_fallback [OF try_readonly mkdtemp_readonly,
      of posix_system iris_params two_runner_service] try_readonly w
  show ?thesis by auto
qed

lemmas port_eval = windows_runners_def windows_runner_step_def enter_reserve_free_port_def
  reserve_free_port_def close_port_stack_def release_port_def


lemma windows_healthy_ports:
  "port_log (snd (serve_production_plan windows_system c two_runner_service healthy_world))
     = [Reserved 49152, Reserved 49153, Reserved 49154,
        Released 49154, Released 49153, Released 49152]
   \<and> bound_ports (snd (serve_production_plan windows_system c two_runner_service healthy_world))
     = []
   \<and> fs (snd (serve_production_plan windows_system c two_runner_service healthy_world))
     = fs healthy_world"
  using ensure_healthy
  by (simp add: serve_production_plan_def runner_setup_def windows_system_def Let_def
      two_runner_service_def port_eval healthy_world_def)


text \<open>
  A removal that is refused part of the way leaves the file system partly cleaned: what
  was removed before the refusal is gone, the rest stays.
\<close>

lemma rmtree_stops_at_first_refusal:
  "rmtree [''srv'', ''metrics''] half_locked_world
     = (Inl (OSError PermissionError),
        half_locked_world\<lparr>fs := fs healthy_world @ [([''srv'', ''metrics'', ''live.db''], File)]\<rparr>)"
  by (simp add: half_locked_world_def healthy_world_def fs_eval)

lemma rmtree_refused_at_the_directory:
  "rmtree [''srv'', ''metrics''] locked_parent_world
     = (Inl (OSError PermissionError), locked_parent_world\<lparr>fs := fs healthy_world\<rparr>)"
  by (simp add: locked_parent_world_def nonempty_world_def healthy_world_def fs_eval)

lemma ensure_locked_parent:
  "ensure_prometheus_dir ''/srv/metrics'' True True locked_parent_world
     = (Inr ''/tmp/tmpk3x9q2ab'',
        locked_parent_world\<lparr>fs := fs healthy_world @ [([''tmp'', ''tmpk3x9q2ab''], Dir)],
                     tmp_names := [''tmp7fh2m1zz''],
                     warnings := [''Failed to ensure the prometheus multiproc directory /srv/metrics, using alternative: /tmp/tmpk3x9q2ab''],
                     prometheus_multiproc_dir := ''/tmp/tmpk3x9q2ab''\<rparr>)"
  by (simp add: locked_parent_world_def nonempty_world_def healthy_world_def fs_eval)







end
